theory Spec2Isabelle
  imports Complex_Main "HOL-Library.Word"
begin

unbundle bit_operations_syntax

section \<open>The bq769x0 driver (bq769x0.cpp) as a state-passing model\<close>

text \<open>
  The driver is one C++ class whose methods read and write its fields and talk to the
  chip over I2C. Each method becomes a function from the object's state (a record of
  the fields) to an error or a result with the new state.

  Conventions of the model:
  \<^item> \<open>int\<close> and \<open>long\<close> values are integers; where a product of caller-supplied
    values can leave the 32 bits these types have on the mbed ARM targets, the model
    wraps it with \<open>s32\<close> and the theorems state the range they need.
  \<^item> \<open>char\<close> and \<open>uint8_t\<close> are \<open>8 word\<close> (on ARM \<open>char\<close> is unsigned).
  \<^item> \<open>float\<close> and \<open>double\<close> values are exact reals: rounding to the binary
    formats is not modelled. Conversion to an integer type truncates towards zero.
  \<^item> Integer division truncates towards zero (\<open>c_div\<close>), as in C.
  \<^item> An array is a list of its declared length; an access outside it is the error
    \<open>IndexOutOfBounds\<close> with the offending index.
  \<^item> The I2C bus is a queue \<open>rx\<close> of the bytes the chip will deliver and a log
    \<open>tx\<close> of the frames written. A read that finds too few bytes is \<open>BusStalled\<close>:
    the driver blocks.
\<close>

subsection \<open>C arithmetic\<close>

type_synonym byte = "8 word"

definition c_div :: "int \<Rightarrow> int \<Rightarrow> int" where
  "c_div a b = sgn a * sgn b * (\<bar>a\<bar> div \<bar>b\<bar>)"

definition c_mod :: "int \<Rightarrow> int \<Rightarrow> int" where
  "c_mod a b = a - b * c_div a b"

text \<open>Two's-complement reading of the low 32 (16) bits, and the unsigned 32-bit value.\<close>

definition s32 :: "int \<Rightarrow> int" where
  "s32 x = (x + 2 ^ 31) mod 2 ^ 32 - 2 ^ 31"

definition u32 :: "int \<Rightarrow> int" where
  "u32 x = x mod 2 ^ 32"

definition s16 :: "int \<Rightarrow> int" where
  "s16 x = (x + 2 ^ 15) mod 2 ^ 16 - 2 ^ 15"

text \<open>Conversion of a floating value to an integer type: the fraction is dropped.\<close>

definition to_long :: "real \<Rightarrow> int" where
  "to_long r = (if 0 \<le> r then \<lfloor>r\<rfloor> else \<lceil>r\<rceil>)"

datatype error = BusStalled | IndexOutOfBounds int

text \<open>Bounds-checked array read and write.\<close>

definition array_get :: "'a list \<Rightarrow> int \<Rightarrow> error + 'a" where
  "array_get xs i = (if 0 \<le> i \<and> i < int (length xs) then Inr (xs ! nat i) else Inl (IndexOutOfBounds i))"

definition array_set :: "'a list \<Rightarrow> int \<Rightarrow> 'a \<Rightarrow> error + 'a list" where
  "array_set xs i v = (if 0 \<le> i \<and> i < int (length xs) then Inr (xs[nat i := v]) else Inl (IndexOutOfBounds i))"

subsection \<open>CRC-8\<close>

text \<open>\<open>_crc8_ccitt_update\<close>: eight shift steps, xor with 0x07 when the top bit was set.\<close>

fun crc8_steps :: "nat \<Rightarrow> byte \<Rightarrow> byte" where
  "crc8_steps 0 d = d"
| "crc8_steps (Suc n) d =
     crc8_steps n (if d AND 0x80 \<noteq> 0 then push_bit 1 d XOR 0x07 else push_bit 1 d)"

definition crc8_ccitt_update :: "byte \<Rightarrow> byte \<Rightarrow> byte" where
  "crc8_ccitt_update inCrc inData = crc8_steps 8 (inCrc XOR inData)"

subsection \<open>Declarations of bq769x0.h and registers.h\<close>

text \<open>
  The two headers are not part of the sources at hand. What the methods use of them is
  a parameter of the model: the register numbers, the protection tables with the size
  in bytes of one entry (for \<open>sizeof\<close>), and the position of each bit field in its
  register union.
\<close>

record table =
  entries :: "int list"
  elem_size :: nat

definition sizeof :: "table \<Rightarrow> int" where
  "sizeof t = int (length (entries t) * elem_size t)"

record bitfield =
  lsb :: nat
  width :: nat

definition get_field :: "bitfield \<Rightarrow> byte \<Rightarrow> int" where
  "get_field f b = uint (take_bit (width f) (drop_bit (lsb f) b))"

definition set_field :: "bitfield \<Rightarrow> byte \<Rightarrow> int \<Rightarrow> byte" where
  "set_field f b v =
     (b AND NOT (push_bit (lsb f) (mask (width f))))
       OR push_bit (lsb f) (take_bit (width f) (word_of_int v))"

record registers_h =
  SYS_STAT :: int
  CELLBAL1 :: int
  PROTECT1 :: int
  PROTECT2 :: int
  PROTECT3 :: int
  OV_TRIP :: int
  UV_TRIP :: int
  VC1_HI_BYTE :: int
  BAT_HI_BYTE :: int
  BAT_LO_BYTE :: int
  CC_HI_BYTE :: int
  CC_LO_BYTE :: int
  SCD_delay_setting :: table
  SCD_threshold_setting :: table
  OCD_delay_setting :: table
  OCD_threshold_setting :: table
  UV_delay_setting :: table
  OV_delay_setting :: table
  RSNS :: bitfield
  SCD_DELAY :: bitfield
  SCD_THRESH :: bitfield
  OCD_DELAY :: bitfield
  OCD_THRESH :: bitfield
  UV_DELAY :: bitfield
  OV_DELAY :: bitfield

subsection \<open>The object's state\<close>

text \<open>
  The fields of class \<open>bq769x0\<close> that the modelled methods use, the clock
  (\<open>_timer.read_ms()\<close>), the bus, and \<open>junk\<close>: the content of a local register union
  before its first assignment.

  Modelled from the spec: the fields are declared in bq769x0.h. The spec's data model
  gives voltages, currents, capacity and the coulomb counter as signed integer
  quantities (mV, mA, mAs) and the shunt resistance as a value in mOhm that the
  setter takes as a \<open>float\<close>; the arrays are lists whose length the theorems state.
\<close>

record bms =
  hdr :: registers_h
  I2CAddress :: int
  crcEnabled :: bool
  numberOfCells :: int
  shuntResistorValue_mOhm :: real
  adcGain :: int
  adcOffset :: int
  cellVoltages :: "int list"
  idCellMaxVoltage :: int
  idCellMinVoltage :: int
  batVoltage :: int
  batCurrent :: int
  temperatures :: "int list"
  minCellVoltage :: int
  maxCellVoltage :: int
  idleCurrentThreshold :: int
  alertInterruptFlag :: bool
  errorStatus :: int
  secSinceErrorCounter :: int
  interruptTimestamp :: int
  balancingStatus :: int
  balancingMinIdleTime_s :: int
  balancingMinCellVoltage_mV :: int
  balancingMaxVoltageDifference_mV :: int
  idleTimestamp :: int
  nominalCapacity :: int
  coulombCounter :: int
  OCV :: "int list"
  timer_ms :: int
  rx :: "byte list"
  tx :: "byte list list"
  junk :: byte

subsection \<open>Sequencing of fallible steps\<close>

definition bindE :: "error + 'a \<Rightarrow> ('a \<Rightarrow> error + 'b) \<Rightarrow> error + 'b" where
  "bindE m f = (case m of Inl e \<Rightarrow> Inl e | Inr x \<Rightarrow> f x)"

lemma bindE_Inl [simp]: "bindE (Inl e) f = Inl e"
  by (simp add: bindE_def)

lemma bindE_Inr [simp]: "bindE (Inr x) f = f x"
  by (simp add: bindE_def)

lemma bindE_cong [fundef_cong]:
  "m = m' \<Longrightarrow> (\<And>x. m' = Inr x \<Longrightarrow> f x = f' x) \<Longrightarrow> bindE m f = bindE m' f'"
  by (cases m') (simp_all add: bindE_def)

subsection \<open>Register transport\<close>

definition i2c_write :: "bms \<Rightarrow> byte list \<Rightarrow> bms" where
  "i2c_write s buf = s\<lparr>tx := tx s @ [buf]\<rparr>"

definition i2c_read :: "bms \<Rightarrow> nat \<Rightarrow> error + (byte list \<times> bms)" where
  "i2c_read s n =
     (if length (rx s) < n then Inl BusStalled
      else Inr (take n (rx s), s\<lparr>rx := drop n (rx s)\<rparr>))"

definition writeRegister :: "bms \<Rightarrow> int \<Rightarrow> int \<Rightarrow> bms" where
  "writeRegister s address data =
     (if crcEnabled s then
        (let crc = crc8_ccitt_update 0 (word_of_int (push_bit 1 (I2CAddress s) OR 0));
             crc = crc8_ccitt_update crc (word_of_int address);
             crc = crc8_ccitt_update crc (word_of_int data)
         in i2c_write s [word_of_int address, word_of_int data, crc])
      else i2c_write s [word_of_int address, word_of_int data])"

text \<open>The bytes \<open>writeRegister\<close> puts on the bus for an address and a data value.\<close>

definition write_frame :: "bms \<Rightarrow> int \<Rightarrow> int \<Rightarrow> byte list" where
  "write_frame s address data = last (tx (writeRegister s address data))"

text \<open>
  The \<open>do ... while (crc != crcSlave)\<close> loop of \<open>readRegister\<close>. The variable \<open>crc\<close>
  is declared before the loop, so each pass starts from the value the pass before
  left in it.
\<close>

function readRegister_loop :: "bms \<Rightarrow> byte \<Rightarrow> error + (int \<times> bms)" where
  "readRegister_loop s crc =
     bindE (i2c_read s 2) (\<lambda>(buf, s').
       let data = buf ! 0;
           crcSlave = buf ! 1;
           crc = crc8_ccitt_update crc (word_of_int (push_bit 1 (I2CAddress s) OR 1));
           crc = crc8_ccitt_update crc data
       in if crc \<noteq> crcSlave then readRegister_loop s' crc else Inr (uint data, s'))"
  by pat_completeness auto
termination
  by (relation "measure (\<lambda>(s, crc). length (rx s))")
     (auto simp: i2c_read_def split: if_splits)

definition readRegister :: "bms \<Rightarrow> int \<Rightarrow> error + (int \<times> bms)" where
  "readRegister s address =
     (let s = i2c_write s [word_of_int address] in
      if crcEnabled s then readRegister_loop s 0
      else bindE (i2c_read s 1) (\<lambda>(buf, s'). Inr (uint (buf ! 0), s')))"

subsection \<open>Measurement pipeline\<close>

text \<open>
  \<open>updateCurrent\<close>. Bit 7 of the status byte is \<open>CC_READY\<close>: it is the bit the method
  writes back to clear the flag. The two operands of \<open>|\<close> are read left to right.
\<close>

definition updateCurrent :: "bms \<Rightarrow> error + bms" where
  "updateCurrent s =
     bindE (readRegister s (SYS_STAT (hdr s))) (\<lambda>(sys_stat, s).
       if bit sys_stat 7 then
         bindE (readRegister s (CC_HI_BYTE (hdr s))) (\<lambda>(hi, s).
         bindE (readRegister s (CC_LO_BYTE (hdr s))) (\<lambda>(lo, s).
           let adcVal = push_bit 8 hi OR lo;
               s = s\<lparr>batCurrent :=
                     to_long (real_of_int (s16 adcVal) * 8.44 / shuntResistorValue_mOhm s)\<rparr>;
               s = s\<lparr>coulombCounter := coulombCounter s + c_div (batCurrent s) 4\<rparr>;
               s = (if batCurrent s > -10 \<and> batCurrent s < 10 then s\<lparr>batCurrent := 0\<rparr> else s);
               s = (if \<bar>batCurrent s\<bar> > idleCurrentThreshold s
                    then s\<lparr>idleTimestamp := timer_ms s\<rparr> else s);
               s = (if sys_stat AND 0x3F = 0 then s\<lparr>alertInterruptFlag := False\<rparr> else s)
           in Inr (writeRegister s (SYS_STAT (hdr s)) 0x80)))
       else Inr s)"

text \<open>One burst read of a cell channel: the 14-bit ADC value (lines 782 to 790).\<close>

definition read_cell_adc :: "bms \<Rightarrow> error + (int \<times> bms)" where
  "read_cell_adc s =
     (if crcEnabled s then
        bindE (i2c_read s 4) (\<lambda>(buf, s').
          Inr (push_bit 8 (uint (buf ! 0) AND 0x3F) OR uint (buf ! 2), s'))
      else
        bindE (i2c_read s 2) (\<lambda>(buf, s').
          Inr (push_bit 8 (uint (buf ! 0) AND 0x3F) OR uint (buf ! 1), s')))"

lemma read_cell_adc_numberOfCells:
  "read_cell_adc s = Inr (a, s') \<Longrightarrow> numberOfCells s' = numberOfCells s"
  by (auto simp: read_cell_adc_def i2c_read_def split: if_splits)

text \<open>The cell loop of \<open>updateVoltages\<close>, from channel \<open>i\<close> on.\<close>

function updateVoltages_loop :: "bms \<Rightarrow> int \<Rightarrow> error + bms" where
  "updateVoltages_loop s i =
     (if i < numberOfCells s then
        bindE (read_cell_adc s) (\<lambda>(adcVal, s1).
        bindE (array_set (cellVoltages s1) i (c_div (adcVal * adcGain s1) 1000 + adcOffset s1))
          (\<lambda>cv.
        let s2 = s1\<lparr>cellVoltages := cv\<rparr> in
        bindE (array_get (cellVoltages s2) i) (\<lambda>v.
        bindE (array_get (cellVoltages s2) (idCellMaxVoltage s2)) (\<lambda>vmax.
        let s3 = (if v > vmax then s2\<lparr>idCellMaxVoltage := i\<rparr> else s2) in
        bindE (array_get (cellVoltages s3) (idCellMinVoltage s3)) (\<lambda>vmin.
        let s4 = (if v < vmin \<and> v > 500 then s3\<lparr>idCellMinVoltage := i\<rparr> else s3) in
        updateVoltages_loop s4 (i + 1))))))
      else Inr s)"
  by pat_completeness auto
termination
  by (relation "measure (\<lambda>(s, i). nat (numberOfCells s - i))")
     (auto dest: read_cell_adc_numberOfCells)

definition updateVoltages :: "bms \<Rightarrow> error + bms" where
  "updateVoltages s =
     bindE (readRegister s (BAT_HI_BYTE (hdr s))) (\<lambda>(hi, s).
     bindE (readRegister s (BAT_LO_BYTE (hdr s))) (\<lambda>(lo, s).
       let adcVal = push_bit 8 hi OR lo;
           s = s\<lparr>batVoltage :=
                 to_long (4 * real_of_int (adcGain s) * real_of_int adcVal / 1000
                          + real_of_int (4 * adcOffset s))\<rparr>;
           s = i2c_write s [word_of_int (VC1_HI_BYTE (hdr s))];
           s = s\<lparr>idCellMaxVoltage := 0\<rparr>;
           s = s\<lparr>idCellMinVoltage := 0\<rparr>
       in updateVoltages_loop s 0))"

subsection \<open>Fault state machine\<close>

text \<open>
  The block of \<open>checkStatus\<close> guarded by \<open>secSinceInterrupt >= secSinceErrorCounter\<close>
  (the source's "called only once per second"): one clear attempt per fault bit that
  is due, then the counter advances.
\<close>

definition clear_attempts :: "bms \<Rightarrow> int \<Rightarrow> error + bms" where
  "clear_attempts s sys_stat =
     (let s = (if sys_stat AND 0x20 \<noteq> 0 \<and> c_mod (secSinceErrorCounter s) 3 = 0
               then writeRegister s (SYS_STAT (hdr s)) 0x20 else s);
          s = (if sys_stat AND 0x10 \<noteq> 0 \<and> c_mod (secSinceErrorCounter s) 10 = 0
               then writeRegister s (SYS_STAT (hdr s)) 0x10 else s)
      in
      bindE (if sys_stat AND 0x08 \<noteq> 0 then
               bindE (updateVoltages s) (\<lambda>s.
               bindE (array_get (cellVoltages s) (idCellMinVoltage s)) (\<lambda>v.
                 Inr (if v > minCellVoltage s
                      then writeRegister s (SYS_STAT (hdr s)) 0x08 else s)))
             else Inr s) (\<lambda>s.
      bindE (if sys_stat AND 0x04 \<noteq> 0 then
               bindE (updateVoltages s) (\<lambda>s.
               bindE (array_get (cellVoltages s) (idCellMaxVoltage s)) (\<lambda>v.
                 Inr (if v < maxCellVoltage s
                      then writeRegister s (SYS_STAT (hdr s)) 0x04 else s)))
             else Inr s) (\<lambda>s.
        let s = (if sys_stat AND 0x02 \<noteq> 0 \<and> c_mod (secSinceErrorCounter s) 60 = 0
                 then writeRegister s (SYS_STAT (hdr s)) 0x02 else s);
            s = (if sys_stat AND 0x01 \<noteq> 0 \<and> c_mod (secSinceErrorCounter s) 60 = 0
                 then writeRegister s (SYS_STAT (hdr s)) 0x01 else s)
        in Inr (s\<lparr>secSinceErrorCounter := secSinceErrorCounter s + 1\<rparr>))))"

text \<open>
  \<open>checkStatus\<close>. \<open>secSinceInterrupt\<close> is an \<open>unsigned int\<close>; its difference to the
  counter is cast to \<open>long\<close> before \<open>abs\<close>.
\<close>

definition checkStatus :: "bms \<Rightarrow> error + (int \<times> bms)" where
  "checkStatus s =
     (if alertInterruptFlag s = False \<and> errorStatus s = 0 then Inr (0, s)
      else
        bindE (readRegister s (SYS_STAT (hdr s))) (\<lambda>(sys_stat, s).
        bindE (if bit sys_stat 7 then updateCurrent s else Inr s) (\<lambda>s.
          if sys_stat AND 0x3F \<noteq> 0 then
            (let s = (if alertInterruptFlag s = True
                      then s\<lparr>secSinceErrorCounter := 0\<rparr> else s);
                 s = s\<lparr>errorStatus := sys_stat\<rparr>;
                 secSinceInterrupt = u32 (c_div (timer_ms s - interruptTimestamp s) 1000);
                 s = (if \<bar>s32 (secSinceInterrupt - secSinceErrorCounter s)\<bar> > 2
                      then s\<lparr>secSinceErrorCounter := secSinceInterrupt\<rparr> else s)
             in bindE (if secSinceInterrupt \<ge> secSinceErrorCounter s
                       then clear_attempts s sys_stat else Inr s) (\<lambda>s.
                  Inr (errorStatus s, s)))
          else
            (let s = s\<lparr>errorStatus := 0\<rparr> in Inr (errorStatus s, s)))))"

text \<open>\<open>setAlertInterruptFlag\<close>, the handler of the rising ALERT pin.\<close>

definition setAlertInterruptFlag :: "bms \<Rightarrow> bms" where
  "setAlertInterruptFlag s = s\<lparr>interruptTimestamp := timer_ms s, alertInterruptFlag := True\<rparr>"

subsection \<open>Balancing engine\<close>

text \<open>
  The inner loop of \<open>updateBalancingSwitches\<close> over the five cells of a section, from
  cell \<open>i\<close> with the flags collected so far.
\<close>

function section_flags :: "bms \<Rightarrow> int \<Rightarrow> int \<Rightarrow> int \<Rightarrow> error + int" where
  "section_flags s section i balancingFlags =
     (if i < 5 then
        bindE (array_get (cellVoltages s) (section * 5 + i)) (\<lambda>v.
        bindE (array_get (cellVoltages s) (idCellMinVoltage s)) (\<lambda>vmin.
          if v - vmin > balancingMaxVoltageDifference_mV s then
            (let balancingFlagsTarget = balancingFlags OR push_bit (nat i) 1;
                 adjacentCellCollision =
                   (push_bit 1 balancingFlagsTarget AND balancingFlags \<noteq> 0
                    \<or> push_bit 1 balancingFlags AND balancingFlagsTarget \<noteq> 0)
             in section_flags s section (i + 1)
                  (if adjacentCellCollision = False then balancingFlagsTarget
                   else balancingFlags))
          else section_flags s section (i + 1) balancingFlags))
      else Inr balancingFlags)"
  by pat_completeness auto
termination
  by (relation "measure (\<lambda>(s, section, i, f). nat (5 - i))") auto

text \<open>The section loop: compute the flags, merge them into the status, write the register.\<close>

function balance_sections :: "bms \<Rightarrow> int \<Rightarrow> int \<Rightarrow> error + bms" where
  "balance_sections s numberOfSections section =
     (if section < numberOfSections then
        bindE (section_flags s section 0 0) (\<lambda>balancingFlags.
          let s = s\<lparr>balancingStatus :=
                      balancingStatus s OR push_bit (nat section) balancingFlags\<rparr>;
              s = writeRegister s (CELLBAL1 (hdr s) + section) balancingFlags
          in balance_sections s numberOfSections (section + 1))
      else Inr s)"
  by pat_completeness auto
termination
  by (relation "measure (\<lambda>(s, n, section). nat (n - section))") auto

function clear_sections :: "bms \<Rightarrow> int \<Rightarrow> int \<Rightarrow> bms" where
  "clear_sections s numberOfSections section =
     (if section < numberOfSections then
        clear_sections (writeRegister s (CELLBAL1 (hdr s) + section) 0x0)
          numberOfSections (section + 1)
      else s)"
  by pat_completeness auto
termination
  by (relation "measure (\<lambda>(s, n, section). nat (n - section))") auto

text \<open>
  The condition "balancing allowed", evaluated left to right with the short circuit
  of \<open>&&\<close>; \<open>status\<close> is what \<open>checkStatus()\<close> returned.
\<close>

definition balancing_allowed :: "bms \<Rightarrow> int \<Rightarrow> int \<Rightarrow> error + bool" where
  "balancing_allowed s status idleSeconds =
     (if status = 0 \<and> idleSeconds \<ge> balancingMinIdleTime_s s then
        bindE (array_get (cellVoltages s) (idCellMaxVoltage s)) (\<lambda>vmax.
          if vmax > balancingMinCellVoltage_mV s then
            bindE (array_get (cellVoltages s) (idCellMinVoltage s)) (\<lambda>vmin.
              Inr (vmax - vmin > balancingMaxVoltageDifference_mV s))
          else Inr False)
      else Inr False)"

text \<open>
  The head of \<open>updateBalancingSwitches\<close>: the idle time, the call of \<open>checkStatus\<close>
  and the condition. It yields whether balancing is allowed and the state after the
  status check.
\<close>

definition balancing_gate :: "bms \<Rightarrow> error + (bool \<times> bms)" where
  "balancing_gate s =
     (let idleSeconds = c_div (timer_ms s - idleTimestamp s) 1000;
          idleSeconds' = (if idleSeconds < 0 then c_div (timer_ms s) 1000 else idleSeconds);
          s = (if idleSeconds < 0 then s\<lparr>idleTimestamp := 0\<rparr> else s)
      in
      bindE (checkStatus s) (\<lambda>(status, s).
      bindE (balancing_allowed s status idleSeconds') (\<lambda>allowed. Inr (allowed, s))))"

definition updateBalancingSwitches :: "bms \<Rightarrow> error + bms" where
  "updateBalancingSwitches s =
     (let numberOfSections = c_div (numberOfCells s) 5 in
      bindE (balancing_gate s) (\<lambda>(allowed, s).
        if allowed then
          balance_sections (s\<lparr>balancingStatus := 0\<rparr>) numberOfSections 0
        else if balancingStatus s > 0 then
          Inr ((clear_sections s numberOfSections 0)\<lparr>balancingStatus := 0\<rparr>)
        else Inr s))"

subsection \<open>Threshold configurator\<close>

text \<open>
  The table scans \<open>for (int i = sizeof(table)-1; i > 0; i--)\<close>: the first index, going
  down from \<open>i\<close>, whose entry the request reaches; 0 when the loop ends without one.
  \<open>reached e\<close> is the comparison of the request with the entry \<open>e\<close>.
\<close>

function scan_table :: "(int \<Rightarrow> bool) \<Rightarrow> int list \<Rightarrow> int \<Rightarrow> error + int" where
  "scan_table reached tab i =
     (if i > 0 then
        bindE (array_get tab i) (\<lambda>e.
          if reached e then Inr i else scan_table reached tab (i - 1))
      else Inr 0)"
  by pat_completeness auto
termination
  by (relation "measure (\<lambda>(r, tab, i). nat i)") auto

definition setShortCircuitProtection :: "bms \<Rightarrow> int \<Rightarrow> int \<Rightarrow> error + (int \<times> bms)" where
  "setShortCircuitProtection s current_mA delay_us =
     (let protect1 = set_field (RSNS (hdr s)) (junk s) 1;
          protect1 = set_field (SCD_THRESH (hdr s)) protect1 0
      in
      bindE (scan_table
               (\<lambda>e. real_of_int current_mA * shuntResistorValue_mOhm s / 1000 \<ge> real_of_int e)
               (entries (SCD_threshold_setting (hdr s)))
               (sizeof (SCD_threshold_setting (hdr s)) - 1)) (\<lambda>i.
      let protect1 = set_field (SCD_THRESH (hdr s)) protect1 i;
          protect1 = set_field (SCD_DELAY (hdr s)) protect1 0
      in
      bindE (scan_table (\<lambda>e. delay_us \<ge> e)
               (entries (SCD_delay_setting (hdr s)))
               (sizeof (SCD_delay_setting (hdr s)) - 1)) (\<lambda>j.
      let protect1 = set_field (SCD_DELAY (hdr s)) protect1 j;
          s = writeRegister s (PROTECT1 (hdr s)) (uint protect1)
      in
      bindE (array_get (entries (SCD_threshold_setting (hdr s)))
               (get_field (SCD_THRESH (hdr s)) protect1)) (\<lambda>e.
        Inr (to_long (real_of_int (e * 1000) / shuntResistorValue_mOhm s), s)))))"

definition setOvercurrentDischargeProtection :: "bms \<Rightarrow> int \<Rightarrow> int \<Rightarrow> error + (int \<times> bms)" where
  "setOvercurrentDischargeProtection s current_mA delay_ms =
     (let protect2 = set_field (OCD_THRESH (hdr s)) (junk s) 0
      in
      bindE (scan_table
               (\<lambda>e. real_of_int current_mA * shuntResistorValue_mOhm s / 1000 \<ge> real_of_int e)
               (entries (OCD_threshold_setting (hdr s)))
               (sizeof (OCD_threshold_setting (hdr s)) - 1)) (\<lambda>i.
      let protect2 = set_field (OCD_THRESH (hdr s)) protect2 i;
          protect2 = set_field (OCD_DELAY (hdr s)) protect2 0
      in
      bindE (scan_table (\<lambda>e. delay_ms \<ge> e)
               (entries (OCD_delay_setting (hdr s)))
               (sizeof (OCD_delay_setting (hdr s)) - 1)) (\<lambda>j.
      let protect2 = set_field (OCD_DELAY (hdr s)) protect2 j;
          s = writeRegister s (PROTECT2 (hdr s)) (uint protect2)
      in
      bindE (array_get (entries (OCD_threshold_setting (hdr s)))
               (get_field (OCD_THRESH (hdr s)) protect2)) (\<lambda>e.
        Inr (to_long (real_of_int (e * 1000) / shuntResistorValue_mOhm s), s)))))"






subsection \<open>State of charge\<close>

definition setBatteryCapacity :: "bms \<Rightarrow> int \<Rightarrow> bms" where
  "setBatteryCapacity s capacity_mAh = s\<lparr>nominalCapacity := s32 (capacity_mAh * 3600)\<rparr>"

definition getMaxCellVoltage :: "bms \<Rightarrow> error + int" where
  "getMaxCellVoltage s = array_get (cellVoltages s) (idCellMaxVoltage s)"

definition getSOC :: "bms \<Rightarrow> real" where
  "getSOC s = real_of_int (coulombCounter s) / real_of_int (nominalCapacity s) * 100"

text \<open>
  \<open>setOCV\<close> takes an array of \<open>NUM_OCV_POINTS\<close> entries; the macro is defined in
  bq769x0.h, so the table is a list and \<open>NUM_OCV_POINTS\<close> its length.
\<close>

definition NUM_OCV_POINTS :: "bms \<Rightarrow> int" where
  "NUM_OCV_POINTS s = int (length (OCV s))"

text \<open>The scan of \<open>resetSOC\<close> over the OCV table, from breakpoint \<open>i\<close>.\<close>

function resetSOC_loop :: "bms \<Rightarrow> int \<Rightarrow> int \<Rightarrow> error + bms" where
  "resetSOC_loop s voltage i =
     (if i < NUM_OCV_POINTS s then
        bindE (array_get (OCV s) i) (\<lambda>ocv_i.
          if ocv_i \<le> voltage then
            (if i = 0 then Inr (s\<lparr>coulombCounter := nominalCapacity s\<rparr>)
             else
               bindE (array_get (OCV s) (i - 1)) (\<lambda>ocv_prev.
                 Inr (s\<lparr>coulombCounter :=
                   to_long (real_of_int (nominalCapacity s) / (real_of_int (NUM_OCV_POINTS s) - 1.0)
                     * (real_of_int (NUM_OCV_POINTS s) - 1.0 - real_of_int i
                        + (real_of_int voltage - real_of_int ocv_i)
                            / real_of_int (ocv_prev - ocv_i)))\<rparr>)))
          else resetSOC_loop s voltage (i + 1))
      else Inr s)"
  by pat_completeness auto
termination
  by (relation "measure (\<lambda>(s, v, i). nat (NUM_OCV_POINTS s - i))") auto

definition resetSOC :: "bms \<Rightarrow> int \<Rightarrow> error + bms" where
  "resetSOC s percent =
     (if percent \<le> 100 \<and> percent \<ge> 0 then
        Inr (s\<lparr>coulombCounter :=
               to_long (real_of_int (s32 (nominalCapacity s * percent)) / 100.0)\<rparr>)
      else
        bindE (getMaxCellVoltage s) (\<lambda>voltage.
          resetSOC_loop (s\<lparr>coulombCounter := 0\<rparr>) voltage 0))"

subsection \<open>Temperature getters\<close>

definition getTemperatureDegC :: "bms \<Rightarrow> int \<Rightarrow> error + (real \<times> bms)" where
  "getTemperatureDegC s channel =
     (if channel \<ge> 1 \<and> channel \<le> 3 then
        bindE (array_get (temperatures s) (channel - 1)) (\<lambda>t. Inr (real_of_int t / 10.0, s))
      else Inr (- 273.15, s))"

definition getTemperatureDegF :: "bms \<Rightarrow> int \<Rightarrow> error + (real \<times> bms)" where
  "getTemperatureDegF s channel =
     bindE (getTemperatureDegC s channel) (\<lambda>(degC, s). Inr (degC * 1.8 + 32, s))"

subsection \<open>Construction\<close>

datatype chip = bq76920 | bq76930 | bq76940

definition cells_of_chip :: "chip \<Rightarrow> int" where
  "cells_of_chip type =
     (if type = bq76920 then 5 else if type = bq76930 then 10 else 15)"

text \<open>
  Modelled from the spec: the declaration of \<open>cellVoltages\<close> is in bq769x0.h, which is
  not among the sources. The spec's data model gives the store \<open>numberOfCells - 1\<close>
  entries, the entries the constructor's loop (below) sets to 0.
\<close>

definition cellVoltages_length :: "int \<Rightarrow> nat" where
  "cellVoltages_length n = nat (n - 1)"

function init_cellVoltages :: "bms \<Rightarrow> int \<Rightarrow> error + bms" where
  "init_cellVoltages s i =
     (if i < numberOfCells s - 1 then
        bindE (array_set (cellVoltages s) i 0) (\<lambda>cv.
          init_cellVoltages (s\<lparr>cellVoltages := cv\<rparr>) (i + 1))
      else Inr s)"
  by pat_completeness auto
termination
  by (relation "measure (\<lambda>(s, i). nat (numberOfCells s - i))") auto

subsection \<open>A test device\<close>

text \<open>
  A header and an object for the concrete runs below: the register numbers that
  \<open>printRegisters\<close> prints, tables of one-byte entries, the chip's bit-field positions,
  a five-cell device at bus address 0x08 with gain 380 and offset 30.
\<close>

definition test_header :: registers_h where
  "test_header = \<lparr>
     SYS_STAT = 0x00, CELLBAL1 = 0x01, PROTECT1 = 0x06, PROTECT2 = 0x07, PROTECT3 = 0x08,
     OV_TRIP = 0x09, UV_TRIP = 0x0A, VC1_HI_BYTE = 0x0C, BAT_HI_BYTE = 0x2A,
     BAT_LO_BYTE = 0x2B, CC_HI_BYTE = 0x32, CC_LO_BYTE = 0x33,
     SCD_delay_setting = \<lparr>entries = [70, 100, 200, 250], elem_size = 1\<rparr>,
     SCD_threshold_setting =
       \<lparr>entries = [44, 67, 89, 111, 133, 155, 178, 200], elem_size = 1\<rparr>,
     OCD_delay_setting = \<lparr>entries = [8, 20, 40, 80, 160, 180, 200, 250], elem_size = 1\<rparr>,
     OCD_threshold_setting =
       \<lparr>entries = [17, 22, 28, 33, 39, 44, 50, 56, 61, 67, 72, 78, 83, 89, 94, 100],
        elem_size = 1\<rparr>,
     UV_delay_setting = \<lparr>entries = [1, 4, 8, 16], elem_size = 1\<rparr>,
     OV_delay_setting = \<lparr>entries = [1, 2, 4, 8], elem_size = 1\<rparr>,
     RSNS = \<lparr>lsb = 7, width = 1\<rparr>,
     SCD_DELAY = \<lparr>lsb = 3, width = 2\<rparr>,
     SCD_THRESH = \<lparr>lsb = 0, width = 3\<rparr>,
     OCD_DELAY = \<lparr>lsb = 4, width = 3\<rparr>,
     OCD_THRESH = \<lparr>lsb = 0, width = 4\<rparr>,
     UV_DELAY = \<lparr>lsb = 6, width = 2\<rparr>,
     OV_DELAY = \<lparr>lsb = 4, width = 2\<rparr>\<rparr>"

definition test_bms :: bms where
  "test_bms = \<lparr>
     hdr = test_header, I2CAddress = 0x08, crcEnabled = False, numberOfCells = 5,
     shuntResistorValue_mOhm = 1, adcGain = 380, adcOffset = 30,
     cellVoltages = [0, 0, 0, 0, 0], idCellMaxVoltage = 0, idCellMinVoltage = 0,
     batVoltage = 0, batCurrent = 0, temperatures = [0, 0, 0],
     minCellVoltage = 0, maxCellVoltage = 0, idleCurrentThreshold = 30,
     alertInterruptFlag = False, errorStatus = 0, secSinceErrorCounter = 0,
     interruptTimestamp = 0, balancingStatus = 0, balancingMinIdleTime_s = 1800,
     balancingMinCellVoltage_mV = 0, balancingMaxVoltageDifference_mV = 0,
     idleTimestamp = 0, nominalCapacity = 0, coulombCounter = 0, OCV = [],
     timer_ms = 0, rx = [], tx = [], junk = 0\<rparr>"

text \<open>
  A simulated run of the fault check: the ALERT interrupt fires at time 0, and at each
  of the given times (ms) \<open>checkStatus\<close> is called with a status byte on the bus in
  which only the SCD bit (0x02) is set.
\<close>

definition faulted_scd :: bms where
  "faulted_scd = setAlertInterruptFlag (test_bms\<lparr>timer_ms := 0\<rparr>)"

fun poll_status :: "bms \<Rightarrow> int list \<Rightarrow> error + bms" where
  "poll_status s [] = Inr s"
| "poll_status s (t # ts) =
     bindE (checkStatus (s\<lparr>timer_ms := t, rx := [0x02]\<rparr>)) (\<lambda>(status, s).
       poll_status s ts)"

text \<open>The test device with a store of four entries, and the bytes of one voltage scan.\<close>

definition short_store :: bms where
  "short_store = test_bms\<lparr>cellVoltages := [0, 0, 0, 0], rx :=
        [0x20, 0x00, 0x00, 0x00, 0x20, 0x00, 0x21, 0x00, 0x22, 0x00, 0x20, 0x80]\<rparr>"

text \<open>
  The test device at rest for 2000 s with cells at 3300, 3400, 3450, 3500 and 3300 mV,
  balancing above 3400 mV and a differential of 50 mV.
\<close>

definition balancing_due :: bms where
  "balancing_due = test_bms\<lparr>
     cellVoltages := [3300, 3400, 3450, 3500, 3300], idCellMaxVoltage := 3,
     idCellMinVoltage := 0, balancingMinCellVoltage_mV := 3400,
     balancingMaxVoltageDifference_mV := 50, timer_ms := 2000000\<rparr>"


text \<open>The test device with a thermistor reading of 25.1 degrees.\<close>

definition warm :: bms where
  "warm = test_bms\<lparr>temperatures := [251, 0, 0]\<rparr>"

text \<open>
  Two devices with a 10 Ah battery and a five-point OCV table, the highest cell at
  3700 mV and at 3900 mV.
\<close>

definition ocv_low :: bms where
  "ocv_low = test_bms\<lparr>OCV := [4200, 4000, 3800, 3600, 3400], nominalCapacity := 36000000,
     cellVoltages := [3650, 3700, 3690, 3680, 3670], idCellMaxVoltage := 1\<rparr>"

definition ocv_high :: bms where
  "ocv_high = test_bms\<lparr>OCV := [4200, 4000, 3800, 3600, 3400], nominalCapacity := 36000000,
     cellVoltages := [3850, 3700, 3900, 3880, 3870], idCellMaxVoltage := 2\<rparr>"

section \<open>Properties\<close>

declare readRegister_loop.simps [simp del] updateVoltages_loop.simps [simp del]
  section_flags.simps [simp del] balance_sections.simps [simp del]
  clear_sections.simps [simp del] scan_table.simps [simp del]
  resetSOC_loop.simps [simp del] init_cellVoltages.simps [simp del]

lemma bindE_weak_cong [cong]: "m = m' \<Longrightarrow> bindE m f = bindE m' f"
  by simp

subsection \<open>What the transport leaves of the state\<close>

lemma i2c_read_Inl: "i2c_read s n = Inl e \<Longrightarrow> e = BusStalled"
  by (simp add: i2c_read_def split: if_splits)

lemma i2c_read_Inr:
  "i2c_read s n = Inr (buf, s') \<Longrightarrow>
   s' = s\<lparr>rx := drop n (rx s)\<rparr> \<and> buf = take n (rx s) \<and> n \<le> length (rx s)"
  by (auto simp: i2c_read_def split: if_splits)

lemma readRegister_loop_Inl: "readRegister_loop s crc = Inl e \<Longrightarrow> e = BusStalled"
proof (induction s crc rule: readRegister_loop.induct)
  case (1 s crc)
  show ?case
  proof (cases "i2c_read s 2")
    case (Inl e')
    with "1.prems" show ?thesis
      by (simp add: readRegister_loop.simps [of s crc] i2c_read_Inl)
  next
    case (Inr p)
    obtain buf s' where p: "p = (buf, s')" by (cases p)
    from "1.prems" Inr p "1.IH" [OF Inr [unfolded p] refl refl refl refl] show ?thesis
      by (simp add: readRegister_loop.simps [of s crc] Let_def split: if_splits)
  qed
qed

lemma readRegister_loop_Inr:
  "readRegister_loop s crc = Inr (v, s') \<Longrightarrow> \<exists>r. s' = s\<lparr>rx := r\<rparr>"
proof (induction s crc rule: readRegister_loop.induct)
  case (1 s crc)
  show ?case
  proof (cases "i2c_read s 2")
    case (Inl e')
    with "1.prems" show ?thesis
      by (simp add: readRegister_loop.simps [of s crc])
  next
    case (Inr p)
    obtain buf s1 where p: "p = (buf, s1)" by (cases p)
    have s1: "s1 = s\<lparr>rx := drop 2 (rx s)\<rparr>"
      using Inr p by (simp add: i2c_read_Inr)
    from "1.prems" Inr p "1.IH" [OF Inr [unfolded p] refl refl refl refl] show ?thesis
      by (auto simp add: readRegister_loop.simps [of s crc] Let_def s1 split: if_splits)
  qed
qed

lemma readRegister_Inl: "readRegister s a = Inl e \<Longrightarrow> e = BusStalled"
  by (auto simp: readRegister_def Let_def bindE_def i2c_read_def
      dest: readRegister_loop_Inl split: if_splits sum.splits)

lemma readRegister_Inr:
  "readRegister s a = Inr (v, s') \<Longrightarrow>
   \<exists>r. s' = s\<lparr>tx := tx s @ [[word_of_int a]], rx := r\<rparr>"
  by (auto simp: readRegister_def Let_def bindE_def i2c_read_def i2c_write_def
      dest!: readRegister_loop_Inr split: if_splits sum.splits)

lemma read_cell_adc_Inl: "read_cell_adc s = Inl e \<Longrightarrow> e = BusStalled"
  by (auto simp: read_cell_adc_def bindE_def dest: i2c_read_Inl split: if_splits sum.splits)

lemma read_cell_adc_Inr: "read_cell_adc s = Inr (a, s') \<Longrightarrow> \<exists>r. s' = s\<lparr>rx := r\<rparr>"
  by (auto simp: read_cell_adc_def bindE_def dest!: i2c_read_Inr split: if_splits sum.splits)

lemma array_get_Inr: "array_get xs i = Inr v \<Longrightarrow> 0 \<le> i \<and> i < int (length xs) \<and> v = xs ! nat i"
  by (auto simp: array_get_def split: if_splits)


lemma writeRegister_eq: "writeRegister s a d = s\<lparr>tx := tx s @ [write_frame s a d]\<rparr>"
  by (simp add: write_frame_def writeRegister_def i2c_write_def Let_def)

lemma write_frame_cong:
  "crcEnabled s' = crcEnabled s \<Longrightarrow> I2CAddress s' = I2CAddress s \<Longrightarrow>
   write_frame s' a d = write_frame s a d"
  by (simp add: write_frame_def writeRegister_def i2c_write_def Let_def)

lemma write_frame_upd [simp]:
  "write_frame (s\<lparr>balancingStatus := b\<rparr>) a d = write_frame s a d"
  "write_frame (s\<lparr>tx := x\<rparr>) a d = write_frame s a d"
  "write_frame (s\<lparr>rx := r\<rparr>) a d = write_frame s a d"
  "write_frame (s\<lparr>minCellVoltage := m\<rparr>) a d = write_frame s a d"
  "write_frame (s\<lparr>maxCellVoltage := m\<rparr>) a d = write_frame s a d"
  by (rule write_frame_cong; simp)+

subsection \<open>CRC-protected reads\<close>

text \<open>
  CRC bytes for bus address 0x08 (read address byte 0x11): of the frame with data
  0x55, of the frame with data 0xAA, and of the two frames one after the other.
\<close>

lemma crc_11: "crc8_ccitt_update 0 0x11 = 0x77"
  by code_simp

lemma crc_11_55: "crc8_ccitt_update 0x77 0x55 = 0xEE"
  by code_simp

lemma crc_11_AA: "crc8_ccitt_update 0x77 0xAA = 0x1D"
  by code_simp

lemma crc_11_55_11: "crc8_ccitt_update 0xEE 0x11 = 0xF3"
  by code_simp

lemma crc_11_55_11_AA: "crc8_ccitt_update 0xF3 0xAA = 0x88"
  by code_simp

text \<open>
  C2. With CRC enabled \<open>readRegister\<close> should return a data byte only when the CRC
  byte received with it is the CRC-8 (initial value 0) of the read address byte and
  the data. On the test device the chip answers a read of register 0x0B with the
  frame (0x55, 0x00), whose CRC byte is wrong, and then with (0xAA, 0x88). The method
  returns 0xAA, although the CRC-8 of (0x11, 0xAA) is 0x1D and not 0x88: after a
  mismatch the comparison uses the CRC carried over from the rejected frame.
\<close>

theorem readRegister_returns_data_with_wrong_crc:
  "map_sum id fst
     (readRegister (test_bms\<lparr>crcEnabled := True, rx := [0x55, 0x00, 0xAA, 0x88]\<rparr>) 0x0B)
     = Inr 0xAA
   \<and> crc8_ccitt_update
        (crc8_ccitt_update 0 (word_of_int (push_bit 1 (I2CAddress test_bms) OR 1))) 0xAA
     = 0x1D"
  by (simp add: readRegister_def readRegister_loop.simps i2c_read_def i2c_write_def
      test_bms_def Let_def crc_11 crc_11_55 crc_11_55_11 crc_11_55_11_AA crc_11_AA)

text \<open>The same slip the other way round: after one bad frame a good one is refused.\<close>

lemma readRegister_refuses_valid_frame_after_mismatch:
  "readRegister (test_bms\<lparr>crcEnabled := True, rx := [0x55, 0x00, 0xAA, 0x1D]\<rparr>) 0x0B
     = Inl BusStalled"
  by (simp add: readRegister_def readRegister_loop.simps i2c_read_def i2c_write_def
      test_bms_def Let_def crc_11 crc_11_55 crc_11_55_11 crc_11_55_11_AA)

subsection \<open>Fault auto-clear timing\<close>

text \<open>
  C5. While the device is faulted with only the SCD bit set, a clear attempt (the
  frame 0x00, 0x02 to the status register) should go out once per 60 seconds. In the
  simulated run the fault check is called at 0 ms, 250 ms, 1 s and 2 s after the
  interrupt: every one of the four calls writes a clear attempt after its read of the
  status register.
\<close>

theorem checkStatus_scd_clear_on_every_call:
  "map_sum id tx (poll_status faulted_scd [0, 250, 1000, 2000])
     = Inr [[0x00], [0x00, 0x02], [0x00], [0x00, 0x02],
            [0x00], [0x00, 0x02], [0x00], [0x00, 0x02]]"
  by code_simp

subsection \<open>Cell voltages\<close>

text \<open>
  C6. \<open>updateVoltages\<close> should leave \<open>idCellMinVoltage\<close> at the first channel with the
  lowest reading above 500 mV. On the test device the five channels read 30, 3142,
  3240, 3337 and 3191 mV: the lowest reading above 500 mV is channel 1, and the method
  leaves \<open>idCellMinVoltage\<close> at channel 0, which reads 30 mV.
\<close>

theorem updateVoltages_min_index_stays_on_low_channel:
  "map_sum id (\<lambda>s. (cellVoltages s, idCellMaxVoltage s, idCellMinVoltage s))
     (updateVoltages (test_bms\<lparr>rx :=
        [0x20, 0x00, 0x00, 0x00, 0x20, 0x00, 0x21, 0x00, 0x22, 0x00, 0x20, 0x80]\<rparr>))
     = Inr ([30, 3142, 3240, 3337, 3191], 3, 0)"
  by code_simp

lemma updateVoltages_loop_overrun:
  "length (cellVoltages s) = cellVoltages_length (numberOfCells s) \<Longrightarrow>
   0 \<le> i \<Longrightarrow> i < numberOfCells s \<Longrightarrow>
   0 \<le> idCellMaxVoltage s \<Longrightarrow> idCellMaxVoltage s \<le> i \<Longrightarrow>
   0 \<le> idCellMinVoltage s \<Longrightarrow> idCellMinVoltage s \<le> i \<Longrightarrow>
   updateVoltages_loop s i \<noteq> Inl BusStalled \<Longrightarrow>
   updateVoltages_loop s i = Inl (IndexOutOfBounds (numberOfCells s - 1))"
proof (induction s i rule: updateVoltages_loop.induct)
  case (1 s i)
  note len = \<open>length (cellVoltages s) = cellVoltages_length (numberOfCells s)\<close>
  show ?case
  proof (cases "read_cell_adc s")
    case (Inl e)
    then have "updateVoltages_loop s i = Inl BusStalled"
      using "1.prems" by (simp add: updateVoltages_loop.simps [of s i] read_cell_adc_Inl)
    with "1.prems" show ?thesis by simp
  next
    case (Inr p)
    obtain adcVal s1 where p: "p = (adcVal, s1)" by (cases p)
    from Inr p obtain r where s1: "s1 = s\<lparr>rx := r\<rparr>"
      using read_cell_adc_Inr by blast
    show ?thesis
    proof (cases "i = numberOfCells s - 1")
      case True
      have "array_set (cellVoltages s1) i (c_div (adcVal * adcGain s1) 1000 + adcOffset s1)
              = Inl (IndexOutOfBounds i)"
        using True len by (simp add: array_set_def s1 cellVoltages_length_def)
      moreover have "i < numberOfCells s" using "1.prems" by simp
      ultimately have "updateVoltages_loop s i = Inl (IndexOutOfBounds i)"
        using Inr p by (subst updateVoltages_loop.simps) simp
      with True show ?thesis by simp
    next
      case False
      with "1.prems" have ilt: "i < numberOfCells s - 1" by simp
      define cv where
        "cv = (cellVoltages s)[nat i := c_div (adcVal * adcGain s) 1000 + adcOffset s]"
      have set: "array_set (cellVoltages s1) i
                   (c_div (adcVal * adcGain s1) 1000 + adcOffset s1) = Inr cv"
        using ilt "1.prems" len by (simp add: array_set_def cv_def s1 cellVoltages_length_def)
      define s2 where "s2 = s1\<lparr>cellVoltages := cv\<rparr>"
      have lcv: "length cv = length (cellVoltages s)" by (simp add: cv_def)
      have geti: "array_get (cellVoltages s2) i = Inr (cv ! nat i)"
        using ilt "1.prems" len by (simp add: array_get_def s2_def lcv cellVoltages_length_def)
      have getmax: "array_get (cellVoltages s2) (idCellMaxVoltage s2)
                      = Inr (cv ! nat (idCellMaxVoltage s))"
        using ilt "1.prems" len
        by (simp add: array_get_def s2_def s1 lcv cellVoltages_length_def)
      define s3 where
        "s3 = (if cv ! nat i > cv ! nat (idCellMaxVoltage s)
               then s2\<lparr>idCellMaxVoltage := i\<rparr> else s2)"
      have getmin: "array_get (cellVoltages s3) (idCellMinVoltage s3)
                      = Inr (cv ! nat (idCellMinVoltage s))"
        using ilt "1.prems" len
        by (simp add: array_get_def s3_def s2_def s1 lcv cellVoltages_length_def)
      define s4 where
        "s4 = (if cv ! nat i < cv ! nat (idCellMinVoltage s) \<and> cv ! nat i > 500
               then s3\<lparr>idCellMinVoltage := i\<rparr> else s3)"
      have step: "updateVoltages_loop s i = updateVoltages_loop s4 (i + 1)"
        using "1.prems" Inr p set geti getmax getmin
        by (simp add: updateVoltages_loop.simps [of s i] Let_def s2_def [symmetric]
            s3_def [symmetric] s4_def [symmetric])
      have n4: "numberOfCells s4 = numberOfCells s"
        by (simp add: s4_def s3_def s2_def s1)
      have "updateVoltages_loop s4 (i + 1) = Inl (IndexOutOfBounds (numberOfCells s4 - 1))"
      proof (rule "1.IH" [OF _ Inr p [symmetric] set s2_def geti getmax s3_def getmin s4_def])
        show "i < numberOfCells s" using "1.prems" by simp
        show "length (cellVoltages s4) = cellVoltages_length (numberOfCells s4)"
          using len by (simp add: s4_def s3_def s2_def s1 lcv)
        show "0 \<le> i + 1" "i + 1 < numberOfCells s4" using "1.prems" ilt n4 by simp_all
        show "0 \<le> idCellMaxVoltage s4" "idCellMaxVoltage s4 \<le> i + 1"
          using "1.prems" by (simp_all add: s4_def s3_def s2_def s1)
        show "0 \<le> idCellMinVoltage s4" "idCellMinVoltage s4 \<le> i + 1"
          using "1.prems" by (simp_all add: s4_def s3_def s2_def s1)
        show "updateVoltages_loop s4 (i + 1) \<noteq> Inl BusStalled"
          using "1.prems" step by simp
      qed
      with step n4 show ?thesis by simp
    qed
  qed
qed

text \<open>
  C7. The store \<open>cellVoltages\<close> holds \<open>numberOfCells - 1\<close> entries and the cell loop of
  \<open>updateVoltages\<close> runs over the channels 0 to \<open>numberOfCells - 1\<close>. For every chip
  type, on a store of that length a call that is not left waiting for the bus ends in
  the last pass of the loop, at the store to index \<open>numberOfCells - 1\<close>, which lies
  outside the store.
\<close>

theorem updateVoltages_overruns_cellVoltages:
  assumes len: "length (cellVoltages s) = cellVoltages_length (numberOfCells s)"
    and dev: "numberOfCells s = cells_of_chip type"
    and run: "updateVoltages s \<noteq> Inl BusStalled"
  shows "updateVoltages s = Inl (IndexOutOfBounds (numberOfCells s - 1))"
proof (cases "readRegister s (BAT_HI_BYTE (hdr s))")
  case (Inl e)
  with run show ?thesis
    by (simp add: updateVoltages_def readRegister_Inl)
next
  case hi: (Inr p)
  obtain v1 s1 where p: "p = (v1, s1)" by (cases p)
  from hi p obtain r1 where s1: "s1 = s\<lparr>tx := tx s @ [[word_of_int (BAT_HI_BYTE (hdr s))]], rx := r1\<rparr>"
    using readRegister_Inr by blast
  show ?thesis
  proof (cases "readRegister s1 (BAT_LO_BYTE (hdr s1))")
    case (Inl e)
    with run hi p show ?thesis
      by (simp add: updateVoltages_def readRegister_Inl)
  next
    case lo: (Inr q)
    obtain v2 s2 where q: "q = (v2, s2)" by (cases q)
    from lo q obtain r2 where s2: "s2 = s1\<lparr>tx := tx s1 @ [[word_of_int (BAT_LO_BYTE (hdr s1))]], rx := r2\<rparr>"
      using readRegister_Inr by blast
    have "\<exists>b. updateVoltages s = updateVoltages_loop
            (s2\<lparr>batVoltage := b, tx := tx s2 @ [[word_of_int (VC1_HI_BYTE (hdr s2))]],
                idCellMaxVoltage := 0, idCellMinVoltage := 0\<rparr>) 0"
      using hi p lo q
      apply (simp add: updateVoltages_def Let_def i2c_write_def)
      apply (rule exI)
      apply (rule refl)
      done
    then obtain s3 where unfold: "updateVoltages s = updateVoltages_loop s3 0"
      and n3: "numberOfCells s3 = numberOfCells s" "cellVoltages s3 = cellVoltages s"
        "idCellMaxVoltage s3 = 0" "idCellMinVoltage s3 = 0"
      by (auto simp: s2 s1)
    have "0 < numberOfCells s" using dev by (simp add: cells_of_chip_def)
    with len run unfold n3 have "updateVoltages_loop s3 0 = Inl (IndexOutOfBounds (numberOfCells s3 - 1))"
      by (intro updateVoltages_loop_overrun) simp_all
    with unfold n3 show ?thesis by simp
  qed
qed

lemma short_store_run: "updateVoltages short_store = Inl (IndexOutOfBounds 4)"
  unfolding short_store_def by code_simp

theorem updateVoltages_overruns_cellVoltages_witness:
  "length (cellVoltages short_store) = cellVoltages_length (numberOfCells short_store)
   \<and> numberOfCells short_store = cells_of_chip bq76920
   \<and> updateVoltages short_store \<noteq> Inl BusStalled
   \<and> updateVoltages short_store = Inl (IndexOutOfBounds (numberOfCells short_store - 1))"
proof -
  have h1: "length (cellVoltages short_store) = cellVoltages_length (numberOfCells short_store)"
    by (simp add: short_store_def test_bms_def cellVoltages_length_def)
  have h2: "numberOfCells short_store = cells_of_chip bq76920"
    by (simp add: short_store_def test_bms_def cells_of_chip_def)
  have h3: "updateVoltages short_store \<noteq> Inl BusStalled"
    by (simp add: short_store_run)
  show ?thesis
    using h1 h2 h3 updateVoltages_overruns_cellVoltages [OF h1 h2 h3] by simp
qed

subsection \<open>Balancing\<close>

lemma bit_or_single:
  fixes f :: int
  shows "bit (f OR push_bit n 1) j \<longleftrightarrow> bit f j \<or> j = n"
  by (simp only: bit_or_iff bit_push_bit_iff bit_1_iff) auto

lemma collision_free_step:
  fixes f :: int
  assumes na: "\<forall>k. \<not> (bit f k \<and> bit f (Suc k))"
    and c1: "push_bit 1 (f OR push_bit n 1) AND f = 0"
    and c2: "push_bit 1 f AND (f OR push_bit n 1) = 0"
  shows "\<forall>k. \<not> (bit (f OR push_bit n 1) k \<and> bit (f OR push_bit n 1) (Suc k))"
proof (intro allI notI)
  fix k
  assume a: "bit (f OR push_bit n 1) k \<and> bit (f OR push_bit n 1) (Suc k)"
  have "\<not> bit (push_bit 1 (f OR push_bit n 1) AND f) (Suc k)"
    using c1 by simp
  then have b1: "\<not> (bit (f OR push_bit n 1) k \<and> bit f (Suc k))"
    by (simp only: bit_and_iff bit_push_bit_iff) simp
  have "\<not> bit (push_bit 1 f AND (f OR push_bit n 1)) (Suc k)"
    using c2 by simp
  then have b2: "\<not> (bit f k \<and> bit (f OR push_bit n 1) (Suc k))"
    by (simp only: bit_and_iff bit_push_bit_iff) simp
  have o: "\<And>j. bit (f OR push_bit n 1) j \<longleftrightarrow> bit f j \<or> j = n"
    by (simp only: bit_or_iff bit_push_bit_iff bit_1_iff) auto
  from a b1 b2 na show False
    unfolding o by auto
qed


lemma section_flags_sound:
  "section_flags s sec i f = Inr g \<Longrightarrow> 0 \<le> i \<Longrightarrow> 0 \<le> f \<Longrightarrow>
   \<forall>k. \<not> (bit f k \<and> bit f (Suc k)) \<Longrightarrow>
   0 \<le> g \<and> (\<forall>k. \<not> (bit g k \<and> bit g (Suc k))) \<and>
   (\<forall>k. bit g k \<longrightarrow> bit f k \<or>
      (nat i \<le> k \<and> k < 5 \<and>
       cellVoltages s ! nat (sec * 5 + int k) - cellVoltages s ! nat (idCellMinVoltage s)
         > balancingMaxVoltageDifference_mV s))"
proof (induction "nat (5 - i)" arbitrary: i f)
  case 0
  then have "\<not> i < 5" by simp
  with "0.prems" have "g = f"
    by (simp add: section_flags.simps [of s sec i f])
  with "0.prems" show ?case by simp
next
  case (Suc n)
  then have i5: "i < 5" by simp
  note run = \<open>section_flags s sec i f = Inr g\<close>
  obtain v where v: "array_get (cellVoltages s) (sec * 5 + i) = Inr v"
    using run i5 by (cases "array_get (cellVoltages s) (sec * 5 + i)")
      (simp_all add: section_flags.simps [of s sec i f])
  obtain vmin where vmin: "array_get (cellVoltages s) (idCellMinVoltage s) = Inr vmin"
    using run i5 v by (cases "array_get (cellVoltages s) (idCellMinVoltage s)")
      (simp_all add: section_flags.simps [of s sec i f])
  have vv: "v = cellVoltages s ! nat (sec * 5 + i)"
    and vm: "vmin = cellVoltages s ! nat (idCellMinVoltage s)"
    using v vmin by (simp_all add: array_get_Inr)
  define f' where "f' =
     (if balancingMaxVoltageDifference_mV s < v - vmin then
        (if (push_bit 1 (f OR push_bit (nat i) 1) AND f \<noteq> 0
             \<or> push_bit 1 f AND (f OR push_bit (nat i) 1) \<noteq> 0) = False
         then f OR push_bit (nat i) 1 else f)
      else f)"
  have "section_flags s sec i f = section_flags s sec (i + 1) f'"
    by (subst section_flags.simps)
      (simp only: i5 v vmin bindE_Inr Let_def f'_def if_True split: if_split, blast)
  with run have next_run: "section_flags s sec (i + 1) f' = Inr g"
    by simp
  have f'_cases: "f' = f \<or>
     (f' = f OR push_bit (nat i) 1 \<and> balancingMaxVoltageDifference_mV s < v - vmin
      \<and> push_bit 1 (f OR push_bit (nat i) 1) AND f = 0
      \<and> push_bit 1 f AND (f OR push_bit (nat i) 1) = 0)"
    unfolding f'_def by (simp only: split: if_split) blast
  have nonneg: "0 \<le> f'"
    using \<open>0 \<le> f\<close> f'_cases by auto
  have noadj: "\<forall>k. \<not> (bit f' k \<and> bit f' (Suc k))"
    using Suc.prems(4) collision_free_step [of f "nat i"] f'_cases by metis
  have bits: "\<And>k. bit f' k \<Longrightarrow> bit f k \<or>
      (k = nat i \<and> v - vmin > balancingMaxVoltageDifference_mV s)"
    using f'_cases by (metis bit_or_single)
  have n: "n = nat (5 - (i + 1))" using Suc.hyps(2) by simp
  have ih: "0 \<le> g \<and> (\<forall>k. \<not> (bit g k \<and> bit g (Suc k))) \<and>
   (\<forall>k. bit g k \<longrightarrow> bit f' k \<or>
      (nat (i + 1) \<le> k \<and> k < 5 \<and>
       cellVoltages s ! nat (sec * 5 + int k) - cellVoltages s ! nat (idCellMinVoltage s)
         > balancingMaxVoltageDifference_mV s))"
    using Suc.hyps(1) [OF n next_run _ nonneg noadj] \<open>0 \<le> i\<close> by simp
  show ?case
  proof (intro conjI allI impI)
    show "0 \<le> g" using ih by simp
    show "\<not> (bit g k \<and> bit g (Suc k))" for k using ih by simp
    show "bit f k \<or> (nat i \<le> k \<and> k < 5 \<and>
       cellVoltages s ! nat (sec * 5 + int k) - cellVoltages s ! nat (idCellMinVoltage s)
         > balancingMaxVoltageDifference_mV s)" if "bit g k" for k
    proof -
      from ih that consider "bit f' k" | "nat (i + 1) \<le> k \<and> k < 5 \<and>
       cellVoltages s ! nat (sec * 5 + int k) - cellVoltages s ! nat (idCellMinVoltage s)
         > balancingMaxVoltageDifference_mV s" by blast
      then show ?thesis
      proof cases
        case 1
        from bits [OF 1] show ?thesis
          using i5 \<open>0 \<le> i\<close> vv vm by auto
      next
        case 2
        then show ?thesis using \<open>0 \<le> i\<close> by auto
      qed
    qed
  qed
qed


lemma section_flags_cong:
  "cellVoltages s' = cellVoltages s \<Longrightarrow> idCellMinVoltage s' = idCellMinVoltage s \<Longrightarrow>
   balancingMaxVoltageDifference_mV s' = balancingMaxVoltageDifference_mV s \<Longrightarrow>
   section_flags s' sec i f = section_flags s sec i f"
proof (induction "nat (5 - i)" arbitrary: i f)
  case 0
  then show ?case
    by (simp add: section_flags.simps [of s' sec i f] section_flags.simps [of s sec i f])
next
  case (Suc n)
  then have "n = nat (5 - (i + 1))" by simp
  from Suc.hyps(1) [OF this Suc.prems]
  have e: "section_flags s' sec (i + 1) = section_flags s sec (i + 1)"
    by (rule ext)
  show ?case
    unfolding section_flags.simps [of s' sec i f] section_flags.simps [of s sec i f]
      e Suc.prems ..
qed

lemma section_flags_total:
  "0 \<le> sec \<Longrightarrow> 0 \<le> i \<Longrightarrow> sec * 5 + 5 \<le> int (length (cellVoltages s)) \<Longrightarrow>
   0 \<le> idCellMinVoltage s \<Longrightarrow> idCellMinVoltage s < int (length (cellVoltages s)) \<Longrightarrow>
   \<exists>g. section_flags s sec i f = Inr g"
proof (induction "nat (5 - i)" arbitrary: i f)
  case 0
  then show ?case by (simp add: section_flags.simps [of s sec i f])
next
  case (Suc n)
  then have n: "n = nat (5 - (i + 1))" and i5: "i < 5" by simp_all
  have g1: "array_get (cellVoltages s) (sec * 5 + i) = Inr (cellVoltages s ! nat (sec * 5 + i))"
    using Suc.prems i5 by (simp add: array_get_def)
  have g2: "array_get (cellVoltages s) (idCellMinVoltage s)
              = Inr (cellVoltages s ! nat (idCellMinVoltage s))"
    using Suc.prems by (simp add: array_get_def)
  have "\<And>f. \<exists>g. section_flags s sec (i + 1) f = Inr g"
    using Suc.hyps(1) [OF n] Suc.prems by simp
  then show ?case
    by (simp add: section_flags.simps [of s sec i f] i5 g1 g2 Let_def)
qed

lemma section_flags_upd [simp]:
  "section_flags (s\<lparr>balancingStatus := b\<rparr>) sec i f = section_flags s sec i f"
  "section_flags (s\<lparr>tx := x\<rparr>) sec i f = section_flags s sec i f"
  by (rule section_flags_cong; simp)+

lemma balance_sections_writes:
  "0 \<le> sec \<Longrightarrow> sec \<le> n \<Longrightarrow> n * 5 \<le> int (length (cellVoltages s)) \<Longrightarrow>
   0 \<le> idCellMinVoltage s \<Longrightarrow> idCellMinVoltage s < int (length (cellVoltages s)) \<Longrightarrow>
   \<exists>s'. balance_sections s n sec = Inr s' \<and>
     tx s' = tx s @ map (\<lambda>j. write_frame s (CELLBAL1 (hdr s) + int j)
                              (projr (section_flags s (int j) 0 0))) [nat sec..<nat n]"
proof (induction "nat (n - sec)" arbitrary: s sec)
  case 0
  then have "sec = n" by simp
  then show ?case by (simp add: balance_sections.simps [of s n n])
next
  case (Suc m)
  then have lt: "sec < n" and m: "m = nat (n - (sec + 1))" by simp_all
  have "sec * 5 + 5 \<le> int (length (cellVoltages s))"
    using lt Suc.prems by simp
  then obtain g where g: "section_flags s sec 0 0 = Inr g"
    using section_flags_total [of sec 0 s 0] Suc.prems by auto
  define s2 where "s2 = writeRegister
      (s\<lparr>balancingStatus := balancingStatus s OR push_bit (nat sec) g\<rparr>)
      (CELLBAL1 (hdr s) + sec) g"
  have step: "balance_sections s n sec = balance_sections s2 n (sec + 1)"
    using lt g by (simp add: balance_sections.simps [of s n sec] Let_def s2_def)
  have s2: "s2 = s\<lparr>balancingStatus := balancingStatus s OR push_bit (nat sec) g,
                   tx := tx s @ [write_frame s (CELLBAL1 (hdr s) + sec) g]\<rparr>"
    by (simp add: s2_def writeRegister_eq)
  have same: "\<And>a d. write_frame s2 a d = write_frame s a d"
    "\<And>j. section_flags s2 j 0 0 = section_flags s j 0 0" "hdr s2 = hdr s"
    by (simp_all add: s2)
  from Suc.hyps(1) [OF m, of s2] Suc.prems lt
  obtain s' where r: "balance_sections s2 n (sec + 1) = Inr s'"
    and w: "tx s' = tx s2 @ map (\<lambda>j. write_frame s2 (CELLBAL1 (hdr s2) + int j)
                              (projr (section_flags s2 (int j) 0 0))) [nat (sec + 1)..<nat n]"
    by (auto simp: s2)
  have upt: "[nat sec..<nat n] = nat sec # [nat (sec + 1)..<nat n]"
    using lt Suc.prems(1) by (simp add: upt_conv_Cons nat_add_distrib)
  show ?case
    using r w step g Suc.prems(1) by (simp add: upt same) (simp add: s2)
qed

lemma small_flags:
  fixes g :: int
  assumes "0 \<le> g" "\<forall>k. bit g k \<longrightarrow> k < 5"
  shows "g < 32"
proof -
  have "take_bit 5 g = g"
    using assms by (auto simp: bit_eq_iff bit_take_bit_iff)
  moreover have "take_bit 5 g < 2 ^ 5"
    by (rule take_bit_int_less_exp)
  ultimately show ?thesis by simp
qed

lemma balancing_allowed_True:
  "balancing_allowed s status idle = Inr True \<Longrightarrow>
   0 \<le> idCellMinVoltage s \<and> idCellMinVoltage s < int (length (cellVoltages s))"
  by (auto simp: balancing_allowed_def bindE_def array_get_def split: if_splits sum.splits)

lemma balancing_gate_True:
  "balancing_gate s = Inr (True, s1) \<Longrightarrow>
   0 \<le> idCellMinVoltage s1 \<and> idCellMinVoltage s1 < int (length (cellVoltages s1))"
  by (auto simp: balancing_gate_def Let_def bindE_def dest: balancing_allowed_True
      split: if_splits sum.splits prod.splits)

text \<open>
  C1. When \<open>updateBalancingSwitches\<close> runs and the balancing gate is satisfied (on a
  store that covers the device's cells), the call succeeds and writes one frame per
  section to the registers from \<open>CELLBAL1\<close> on. The flag set \<open>fl j\<close> written for
  section \<open>j\<close> is the one the cell loop computes, it fits the five bits of the
  register, no two neighbouring bits \<open>k\<close> and \<open>k + 1\<close> are both set, and a bit \<open>k\<close>
  is set only if cell \<open>k\<close> of the section exceeds the pack minimum by more than the
  differential threshold.
\<close>

theorem updateBalancingSwitches_no_adjacent_cells:
  assumes gate: "balancing_gate s = Inr (True, s1)"
    and cells: "0 \<le> numberOfCells s"
    and store: "numberOfCells s \<le> int (length (cellVoltages s1))"
  shows "\<exists>s' fl. updateBalancingSwitches s = Inr s' \<and>
     tx s' = tx s1 @ map (\<lambda>j. write_frame s1 (CELLBAL1 (hdr s1) + int j) (fl j))
                       [0..<nat (c_div (numberOfCells s) 5)] \<and>
     (\<forall>j < nat (c_div (numberOfCells s) 5).
        section_flags s1 (int j) 0 0 = Inr (fl j) \<and> 0 \<le> fl j \<and> fl j < 32 \<and>
        (\<forall>k. \<not> (bit (fl j) k \<and> bit (fl j) (Suc k))) \<and>
        (\<forall>k. bit (fl j) k \<longrightarrow> k < 5 \<and>
           cellVoltages s1 ! (j * 5 + k) - cellVoltages s1 ! nat (idCellMinVoltage s1)
             > balancingMaxVoltageDifference_mV s1))"
proof -
  define n where "n = c_div (numberOfCells s) 5"
  have n: "n = numberOfCells s div 5" "0 \<le> n"
    using cells by (simp_all add: n_def c_div_def sgn_if)
  define s0 where "s0 = s1\<lparr>balancingStatus := 0\<rparr>"
  define fl where "fl = (\<lambda>j. projr (section_flags s1 (int j) 0 0))"
  have idmin: "0 \<le> idCellMinVoltage s1" "idCellMinVoltage s1 < int (length (cellVoltages s1))"
    using balancing_gate_True [OF gate] by simp_all
  have len: "n * 5 \<le> int (length (cellVoltages s1))"
    using store n by simp
  have run: "updateBalancingSwitches s = balance_sections s0 n 0"
    using gate by (simp add: updateBalancingSwitches_def Let_def n_def s0_def)
  from balance_sections_writes [of 0 n s0] n len idmin
  obtain s' where r: "balance_sections s0 n 0 = Inr s'"
    and w: "tx s' = tx s0 @ map (\<lambda>j. write_frame s0 (CELLBAL1 (hdr s0) + int j)
                              (projr (section_flags s0 (int j) 0 0))) [0..<nat n]"
    by (auto simp: s0_def)
  have w': "tx s' = tx s1 @ map (\<lambda>j. write_frame s1 (CELLBAL1 (hdr s1) + int j) (fl j))
                       [0..<nat n]"
    using w by (simp add: s0_def fl_def)
  have good: "section_flags s1 (int j) 0 0 = Inr (fl j) \<and> 0 \<le> fl j \<and> fl j < 32 \<and>
        (\<forall>k. \<not> (bit (fl j) k \<and> bit (fl j) (Suc k))) \<and>
        (\<forall>k. bit (fl j) k \<longrightarrow> k < 5 \<and>
           cellVoltages s1 ! (j * 5 + k) - cellVoltages s1 ! nat (idCellMinVoltage s1)
             > balancingMaxVoltageDifference_mV s1)" if j: "j < nat n" for j
  proof -
    have "int j * 5 + 5 \<le> int (length (cellVoltages s1))"
      using j len by simp
    then obtain g where g: "section_flags s1 (int j) 0 0 = Inr g"
      using section_flags_total [of "int j" 0 s1 0] idmin by auto
    then have flj: "fl j = g" by (simp add: fl_def)
    from section_flags_sound [OF g]
    have s: "0 \<le> g" "\<forall>k. \<not> (bit g k \<and> bit g (Suc k))"
      "\<forall>k. bit g k \<longrightarrow> k < 5 \<and>
         cellVoltages s1 ! nat (int j * 5 + int k) - cellVoltages s1 ! nat (idCellMinVoltage s1)
           > balancingMaxVoltageDifference_mV s1"
      by simp_all
    have idx: "\<And>k. nat (int j * 5 + int k) = j * 5 + k"
      by (simp add: nat_add_distrib nat_mult_distrib)
    from s(1) s(3) have "g < 32" by (intro small_flags) auto
    with g s show ?thesis unfolding flj idx by simp
  qed
  show ?thesis
    unfolding n_def [symmetric]
  proof (intro exI conjI)
    show "updateBalancingSwitches s = Inr s'"
      using run r by simp
    show "tx s' = tx s1 @ map (\<lambda>j. write_frame s1 (CELLBAL1 (hdr s1) + int j) (fl j))
                       [0..<nat n]"
      by (rule w')
    show "\<forall>j < nat n.
        section_flags s1 (int j) 0 0 = Inr (fl j) \<and> 0 \<le> fl j \<and> fl j < 32 \<and>
        (\<forall>k. \<not> (bit (fl j) k \<and> bit (fl j) (Suc k))) \<and>
        (\<forall>k. bit (fl j) k \<longrightarrow> k < 5 \<and>
           cellVoltages s1 ! (j * 5 + k) - cellVoltages s1 ! nat (idCellMinVoltage s1)
             > balancingMaxVoltageDifference_mV s1)"
      using good by blast
  qed
qed



theorem updateBalancingSwitches_no_adjacent_cells_witness:
  "balancing_gate balancing_due = Inr (True, balancing_due)
   \<and> 0 \<le> numberOfCells balancing_due
   \<and> numberOfCells balancing_due \<le> int (length (cellVoltages balancing_due))
   \<and> (\<exists>s' fl. updateBalancingSwitches balancing_due = Inr s' \<and>
     tx s' = tx balancing_due
        @ map (\<lambda>j. write_frame balancing_due (CELLBAL1 (hdr balancing_due) + int j) (fl j))
            [0..<nat (c_div (numberOfCells balancing_due) 5)] \<and>
     (\<forall>j < nat (c_div (numberOfCells balancing_due) 5).
        section_flags balancing_due (int j) 0 0 = Inr (fl j) \<and> 0 \<le> fl j \<and> fl j < 32 \<and>
        (\<forall>k. \<not> (bit (fl j) k \<and> bit (fl j) (Suc k))) \<and>
        (\<forall>k. bit (fl j) k \<longrightarrow> k < 5 \<and>
           cellVoltages balancing_due ! (j * 5 + k)
             - cellVoltages balancing_due ! nat (idCellMinVoltage balancing_due)
             > balancingMaxVoltageDifference_mV balancing_due)))"
proof -
  have h1: "balancing_gate balancing_due = Inr (True, balancing_due)"
    unfolding balancing_due_def by code_simp
  have h2: "0 \<le> numberOfCells balancing_due"
    by (simp add: balancing_due_def test_bms_def)
  have h3: "numberOfCells balancing_due \<le> int (length (cellVoltages balancing_due))"
    by (simp add: balancing_due_def test_bms_def)
  show ?thesis
    by (intro conjI h1 h2 h3 updateBalancingSwitches_no_adjacent_cells [OF h1 h2 h3])
qed

text \<open>On that device cells 1 and 3 are balanced; cell 2 is skipped as cell 1's neighbour.\<close>

lemma updateBalancingSwitches_example:
  "map_sum id tx (updateBalancingSwitches balancing_due) = Inr [[0x01, 0x0A]]"
  unfolding balancing_due_def by code_simp

subsection \<open>Cell-voltage thresholds\<close>


lemma s32_id: "- (2 ^ 31) \<le> x \<Longrightarrow> x < 2 ^ 31 \<Longrightarrow> s32 x = x"
  by (simp add: s32_def)














subsection \<open>Current thresholds\<close>













text \<open>
  On the test device a limit of 100 A with a 1 mOhm shunt and a delay of 150 select the
  entries 89 mV and 100 us (short circuit) and 100 mV and 80 ms (overcurrent).
\<close>

lemma current_protection_example:
  "map_sum id (\<lambda>(r, s). (r, tx s)) (setShortCircuitProtection test_bms 100000 150)
     = Inr (89000, [[0x06, 0x8A]])
   \<and> map_sum id (\<lambda>(r, s). (r, tx s)) (setOvercurrentDischargeProtection test_bms 100000 150)
     = Inr (100000, [[0x07, 0x3F]])"
  by code_simp

text \<open>
  \<open>sizeof\<close> counts bytes: with the same table declared with four-byte entries the
  scan starts at index 31, outside the table.
\<close>

lemma scan_starts_outside_wider_table:
  "setShortCircuitProtection
     (test_bms\<lparr>hdr := test_header\<lparr>SCD_threshold_setting :=
        \<lparr>entries = [44, 67, 89, 111, 133, 155, 178, 200], elem_size = 4\<rparr>\<rparr>\<rparr>) 100000 150
     = Inl (IndexOutOfBounds 31)"
  by code_simp

subsection \<open>State of charge\<close>

lemma to_long_of_int [simp]: "to_long (real_of_int k) = k"
  by (simp add: to_long_def)

lemma to_long_mono: "x \<le> y \<Longrightarrow> to_long x \<le> to_long y"
proof -
  assume le: "x \<le> y"
  consider "0 \<le> x" | "x < 0" "0 \<le> y" | "x < 0" "y < 0" by linarith
  then show ?thesis
  proof cases
    case 1
    with le show ?thesis by (simp add: to_long_def floor_mono)
  next
    case 2
    then have "\<lceil>x\<rceil> \<le> 0" "0 \<le> \<lfloor>y\<rfloor>" by (simp_all add: ceiling_le_zero)
    then have "\<lceil>x\<rceil> \<le> \<lfloor>y\<rfloor>" by linarith
    with 2 show ?thesis by (simp only: to_long_def if_True if_False not_le [symmetric])
  next
    case 3
    with le show ?thesis by (simp add: to_long_def ceiling_mono)
  qed
qed

lemma to_long_minus: "to_long (- x) = - to_long x"
  unfolding to_long_def by (auto simp: ceiling_def)

lemma to_long_0 [simp]: "to_long 0 = 0"
  by (simp add: to_long_def)

lemma to_long_sgn:
  "k \<noteq> 0 \<Longrightarrow> to_long (real_of_int (sgn k) * x) = sgn k * to_long x"
  by (cases "0 < k") (simp_all add: to_long_minus sgn_if)


text \<open>
  A scan that starts at breakpoint \<open>j\<close> with the voltage below breakpoint \<open>j - 1\<close>
  ends with a counter between 0 and the share of the capacity of the \<open>N - j\<close>
  segments below, counted in the capacity's own sign.
\<close>

lemma resetSOC_loop_bound:
  assumes desc: "sorted_wrt (>) (OCV s)"
    and cap: "nominalCapacity s \<noteq> 0" and zero: "coulombCounter s = 0"
    and j: "1 \<le> j" "j \<le> NUM_OCV_POINTS s" and below: "v < OCV s ! nat (j - 1)"
  shows "\<exists>c. resetSOC_loop s v j = Inr (s\<lparr>coulombCounter := c\<rparr>)
           \<and> 0 \<le> sgn (nominalCapacity s) * c
           \<and> sgn (nominalCapacity s) * c
               \<le> to_long (\<bar>real_of_int (nominalCapacity s)\<bar> / (real_of_int (NUM_OCV_POINTS s) - 1)
                           * (real_of_int (NUM_OCV_POINTS s) - real_of_int j))"
  using j below
proof (induction "nat (NUM_OCV_POINTS s - j)" arbitrary: j)
  case 0
  then have jn: "j = NUM_OCV_POINTS s" by simp
  have "resetSOC_loop s v j = Inr s"
    by (subst resetSOC_loop.simps) (simp add: jn)
  moreover have "s = s\<lparr>coulombCounter := 0\<rparr>" using zero by simp
  ultimately show ?case
    by (intro exI [of _ 0]) (simp add: jn)
next
  case (Suc n)
  define N where "N = NUM_OCV_POINTS s"
  define a where "a = \<bar>real_of_int (nominalCapacity s)\<bar> / (real_of_int N - 1)"
  define \<sigma> where "\<sigma> = sgn (nominalCapacity s)"
  from Suc have jl: "j < N" and n: "n = nat (N - (j + 1))" by (simp_all add: N_def)
  have N2: "2 \<le> N" using jl Suc.prems by simp
  have a0: "0 \<le> a" using N2 by (simp add: a_def)
  have jlen: "nat j < length (OCV s)" using jl Suc.prems by (simp add: N_def NUM_OCV_POINTS_def)
  have get: "array_get (OCV s) j = Inr (OCV s ! nat j)"
    using jlen Suc.prems by (simp add: array_get_def)
  have getp: "array_get (OCV s) (j - 1) = Inr (OCV s ! nat (j - 1))"
    using jlen Suc.prems by (simp add: array_get_def)
  have d: "OCV s ! nat j < OCV s ! nat (j - 1)"
    using desc jlen Suc.prems by (simp add: sorted_wrt_iff_nth_less nat_diff_distrib)
  show ?case
  proof (cases "OCV s ! nat j \<le> v")
    case True
    define X where "X = real_of_int N - 1.0 - real_of_int j
        + (real_of_int v - real_of_int (OCV s ! nat j))
            / real_of_int (OCV s ! nat (j - 1) - OCV s ! nat j)"
    define c where "c = to_long (real_of_int (nominalCapacity s) / (real_of_int N - 1.0) * X)"
    have run: "resetSOC_loop s v j = Inr (s\<lparr>coulombCounter := c\<rparr>)"
      using True jl get getp Suc.prems
      by (simp add: resetSOC_loop.simps [of s v j] N_def [symmetric] c_def X_def)
    have frac: "0 \<le> (real_of_int v - real_of_int (OCV s ! nat j))
            / real_of_int (OCV s ! nat (j - 1) - OCV s ! nat j)"
      "(real_of_int v - real_of_int (OCV s ! nat j))
            / real_of_int (OCV s ! nat (j - 1) - OCV s ! nat j) \<le> 1"
      using True d Suc.prems(3) by simp_all
    have X0: "0 \<le> X" using frac(1) jl by (simp add: X_def)
    have X1: "X \<le> real_of_int N - real_of_int j" using frac(2) by (simp add: X_def)
    have sc: "\<sigma> * c = to_long (a * X)"
    proof -
      have "real_of_int \<sigma> * (real_of_int (nominalCapacity s) / (real_of_int N - 1.0) * X) = a * X"
        by (simp add: \<sigma>_def a_def sgn_if abs_if)
      then show ?thesis
        using to_long_sgn [OF cap, of "real_of_int (nominalCapacity s) / (real_of_int N - 1.0) * X"]
        by (simp add: \<sigma>_def c_def)
    qed
    have "0 \<le> \<sigma> * c"
      using to_long_mono [of 0 "a * X"] a0 X0 by (simp add: sc)
    moreover have "\<sigma> * c \<le> to_long (a * (real_of_int N - real_of_int j))"
      unfolding sc using a0 X1 by (intro to_long_mono mult_left_mono)
    ultimately show ?thesis
      using run by (auto simp: \<sigma>_def a_def N_def)
  next
    case False
    then have step: "resetSOC_loop s v j = resetSOC_loop s v (j + 1)"
      using jl get by (simp add: resetSOC_loop.simps [of s v j] N_def)
    from Suc.hyps(1) [of "j + 1"] n False jl Suc.prems
    obtain c where c: "resetSOC_loop s v (j + 1) = Inr (s\<lparr>coulombCounter := c\<rparr>)"
      "0 \<le> \<sigma> * c" "\<sigma> * c \<le> to_long (a * (real_of_int N - real_of_int (j + 1)))"
      by (auto simp: N_def \<sigma>_def a_def)
    have "to_long (a * (real_of_int N - real_of_int (j + 1)))
            \<le> to_long (a * (real_of_int N - real_of_int j))"
      using a0 by (intro to_long_mono mult_left_mono) simp_all
    with c step show ?thesis
      by (auto simp: \<sigma>_def a_def N_def)
  qed
qed


lemma resetSOC_exact:
  assumes cap: "nominalCapacity s \<noteq> 0"
    and p: "0 \<le> percent" "percent \<le> 100"
    and whole: "100 dvd nominalCapacity s * percent"
    and range: "- (2 ^ 31) \<le> nominalCapacity s * percent" "nominalCapacity s * percent < 2 ^ 31"
  shows "map_sum id getSOC (resetSOC s percent) = Inr (real_of_int percent)"
proof -
  from whole obtain k where k: "nominalCapacity s * percent = 100 * k" by (auto elim: dvdE)
  have w: "s32 (nominalCapacity s * percent) = nominalCapacity s * percent"
    using range by (intro s32_id)
  have cc: "to_long (real_of_int (s32 (nominalCapacity s * percent)) / 100) = k"
    unfolding w unfolding k by simp
  have "real_of_int k / real_of_int (nominalCapacity s) * 100 = real_of_int percent"
  proof -
    have "real_of_int (nominalCapacity s) * real_of_int percent = 100 * real_of_int k"
      using k by (metis of_int_mult of_int_numeral)
    then show ?thesis using cap by (simp add: field_simps)
  qed
  then show ?thesis
    using p by (simp add: resetSOC_def getSOC_def cc)
qed


text \<open>
  Every capacity set through \<open>setBatteryCapacity\<close> is a multiple of 3600 mAs, so the
  round trip is exact for it (as long as one hundred times the capacity fits).
\<close>

lemma setBatteryCapacity_roundtrip:
  assumes "capacity_mAh \<noteq> 0" "0 \<le> percent" "percent \<le> 100"
    and "\<bar>capacity_mAh * 3600 * 100\<bar> < 2 ^ 31"
  shows "map_sum id getSOC (resetSOC (setBatteryCapacity s capacity_mAh) percent)
           = Inr (real_of_int percent)"
proof -
  have a: "\<bar>capacity_mAh * 3600\<bar> * 100 < 2 ^ 31" using assms(4) by (simp add: abs_mult)
  have b: "\<bar>capacity_mAh * 3600\<bar> * percent \<le> \<bar>capacity_mAh * 3600\<bar> * 100"
    using assms by (intro mult_left_mono) simp_all
  have c: "\<bar>capacity_mAh * 3600 * percent\<bar> < 2 ^ 31"
    using a b assms(2) by (simp add: abs_mult)
  have d: "\<bar>capacity_mAh * 3600\<bar> < 2 ^ 31" using a by linarith
  have n: "nominalCapacity (setBatteryCapacity s capacity_mAh) = capacity_mAh * 3600"
    using d by (simp add: setBatteryCapacity_def s32_id)
  show ?thesis
    using assms c by (intro resetSOC_exact) (simp_all add: n)
qed


lemma resetSOC_loop_mono:
  assumes desc: "sorted_wrt (>) (OCV s1)"
    and same: "OCV s2 = OCV s1" "nominalCapacity s2 = nominalCapacity s1"
    and cap: "nominalCapacity s1 \<noteq> 0"
    and zero: "coulombCounter s1 = 0" "coulombCounter s2 = 0"
    and v: "v1 \<le> v2" and i: "0 \<le> i" "i \<le> NUM_OCV_POINTS s1"
  shows "\<exists>c1 c2. resetSOC_loop s1 v1 i = Inr (s1\<lparr>coulombCounter := c1\<rparr>)
           \<and> resetSOC_loop s2 v2 i = Inr (s2\<lparr>coulombCounter := c2\<rparr>)
           \<and> sgn (nominalCapacity s1) * c1 \<le> sgn (nominalCapacity s1) * c2"
  using i
proof (induction "nat (NUM_OCV_POINTS s1 - i)" arbitrary: i)
  case 0
  then have jn: "i = NUM_OCV_POINTS s1" by simp
  have n2: "NUM_OCV_POINTS s2 = NUM_OCV_POINTS s1" using same by (simp add: NUM_OCV_POINTS_def)
  have "resetSOC_loop s1 v1 i = Inr s1" "resetSOC_loop s2 v2 i = Inr s2"
    by (subst resetSOC_loop.simps, simp add: jn n2)+
  moreover have "s1 = s1\<lparr>coulombCounter := 0\<rparr>" "s2 = s2\<lparr>coulombCounter := 0\<rparr>"
    using zero by simp_all
  ultimately show ?case
    by (intro exI [of _ 0]) simp
next
  case (Suc n)
  define N where "N = NUM_OCV_POINTS s1"
  define a where "a = \<bar>real_of_int (nominalCapacity s1)\<bar> / (real_of_int N - 1)"
  define \<sigma> where "\<sigma> = sgn (nominalCapacity s1)"
  have n2: "NUM_OCV_POINTS s2 = N" using same by (simp add: NUM_OCV_POINTS_def N_def)
  from Suc have il: "i < N" and n: "n = nat (N - (i + 1))" by (simp_all add: N_def)
  have N1: "1 \<le> N" using il Suc.prems by simp
  have a0: "0 \<le> a" using N1 by (simp add: a_def)
  have ilen: "nat i < length (OCV s1)" using il Suc.prems by (simp add: N_def NUM_OCV_POINTS_def)
  have get: "array_get (OCV s1) i = Inr (OCV s1 ! nat i)"
    using ilen Suc.prems by (simp add: array_get_def)
  have getp: "0 < i \<Longrightarrow> array_get (OCV s1) (i - 1) = Inr (OCV s1 ! nat (i - 1))"
    using ilen Suc.prems by (simp add: array_get_def)
  have d: "0 < i \<Longrightarrow> OCV s1 ! nat i < OCV s1 ! nat (i - 1)"
    using desc ilen Suc.prems by (simp add: sorted_wrt_iff_nth_less nat_diff_distrib)
  define X where "X = (\<lambda>v. real_of_int N - 1.0 - real_of_int i
        + (real_of_int v - real_of_int (OCV s1 ! nat i))
            / real_of_int (OCV s1 ! nat (i - 1) - OCV s1 ! nat i))"
  define C where "C = (\<lambda>v. if i = 0 then nominalCapacity s1
        else to_long (real_of_int (nominalCapacity s1) / (real_of_int N - 1.0) * X v))"
  have stop1: "resetSOC_loop s1 v i = Inr (s1\<lparr>coulombCounter := C v\<rparr>)"
    if "OCV s1 ! nat i \<le> v" for v
    using that il get getp Suc.prems
    by (simp add: resetSOC_loop.simps [of s1 v i] N_def [symmetric] C_def X_def)
  have stop2: "resetSOC_loop s2 v i = Inr (s2\<lparr>coulombCounter := C v\<rparr>)"
    if "OCV s1 ! nat i \<le> v" for v
    using that il get getp Suc.prems
    by (simp add: resetSOC_loop.simps [of s2 v i] n2 same C_def X_def)
  have go1: "resetSOC_loop s1 v i = resetSOC_loop s1 v (i + 1)"
    if "\<not> OCV s1 ! nat i \<le> v" for v
    using that il get by (simp add: resetSOC_loop.simps [of s1 v i] N_def [symmetric])
  have go2: "resetSOC_loop s2 v i = resetSOC_loop s2 v (i + 1)"
    if "\<not> OCV s1 ! nat i \<le> v" for v
    using that il get by (simp add: resetSOC_loop.simps [of s2 v i] n2 same)
  have sC: "\<sigma> * C v = to_long (a * X v)" if "0 < i" for v
  proof -
    have "real_of_int \<sigma> * (real_of_int (nominalCapacity s1) / (real_of_int N - 1.0) * X v)
            = a * X v"
      by (simp add: \<sigma>_def a_def sgn_if abs_if)
    then show ?thesis
      using that
        to_long_sgn [OF cap, of "real_of_int (nominalCapacity s1) / (real_of_int N - 1.0) * X v"]
      by (simp add: \<sigma>_def C_def)
  qed
  have sC0: "\<sigma> * C v = \<bar>nominalCapacity s1\<bar>" if "i = 0" for v
    using that by (simp add: C_def \<sigma>_def sgn_if abs_if)
  consider (both) "OCV s1 ! nat i \<le> v1" | (upper) "\<not> OCV s1 ! nat i \<le> v1" "OCV s1 ! nat i \<le> v2"
    | (none) "\<not> OCV s1 ! nat i \<le> v2"
    by blast
  then show ?case
  proof cases
    case both
    then have b2: "OCV s1 ! nat i \<le> v2" using v by simp
    have "\<sigma> * C v1 \<le> \<sigma> * C v2"
    proof (cases "i = 0")
      case True
      then show ?thesis by (simp add: sC0)
    next
      case False
      then have ip: "0 < i" using Suc.prems by simp
      have "X v1 \<le> X v2"
        using d [OF ip] v by (simp add: X_def divide_right_mono)
      then show ?thesis
        unfolding sC [OF ip] using a0 by (intro to_long_mono mult_left_mono)
    qed
    with stop1 [OF both] stop2 [OF b2] show ?thesis
      by (intro exI [of _ "C v1"] exI [of _ "C v2"]) (simp add: \<sigma>_def)
  next
    case upper
    have "v1 < OCV s1 ! nat (i + 1 - 1)" using upper(1) by simp
    from resetSOC_loop_bound [OF desc cap zero(1) _ _ this] il Suc.prems
    obtain c1 where c1: "resetSOC_loop s1 v1 (i + 1) = Inr (s1\<lparr>coulombCounter := c1\<rparr>)"
      "0 \<le> \<sigma> * c1"
      "\<sigma> * c1 \<le> to_long (a * (real_of_int N - real_of_int (i + 1)))"
      by (auto simp: N_def \<sigma>_def a_def)
    have "to_long (a * (real_of_int N - real_of_int (i + 1))) \<le> \<sigma> * C v2"
    proof (cases "i = 0")
      case True
      have "a * (real_of_int N - 1) \<le> \<bar>real_of_int (nominalCapacity s1)\<bar>"
        by (simp add: a_def)
      then have "to_long (a * (real_of_int N - 1)) \<le> to_long (real_of_int \<bar>nominalCapacity s1\<bar>)"
        by (intro to_long_mono) simp
      moreover have "to_long (real_of_int \<bar>nominalCapacity s1\<bar>) = \<bar>nominalCapacity s1\<bar>"
        by (rule to_long_of_int)
      ultimately show ?thesis using True by (simp add: sC0 del: of_int_abs)
    next
      case False
      then have ip: "0 < i" using Suc.prems by simp
      have "0 \<le> (real_of_int v2 - real_of_int (OCV s1 ! nat i))
            / real_of_int (OCV s1 ! nat (i - 1) - OCV s1 ! nat i)"
        using d [OF ip] upper(2) by simp
      then have "real_of_int N - real_of_int (i + 1) \<le> X v2"
        by (simp add: X_def)
      then show ?thesis
        unfolding sC [OF ip] using a0 by (intro to_long_mono mult_left_mono)
    qed
    with c1 have "\<sigma> * c1 \<le> \<sigma> * C v2" by linarith
    with c1(1) go1 [OF upper(1)] stop2 [OF upper(2)] show ?thesis
      by (intro exI [of _ c1] exI [of _ "C v2"]) (simp add: \<sigma>_def)
  next
    case none
    then have n1: "\<not> OCV s1 ! nat i \<le> v1" using v by simp
    from Suc.hyps(1) [of "i + 1"] n il Suc.prems
    obtain c1 c2 where "resetSOC_loop s1 v1 (i + 1) = Inr (s1\<lparr>coulombCounter := c1\<rparr>)"
      "resetSOC_loop s2 v2 (i + 1) = Inr (s2\<lparr>coulombCounter := c2\<rparr>)"
      "\<sigma> * c1 \<le> \<sigma> * c2"
      by (auto simp: N_def \<sigma>_def)
    with go1 [OF n1] go2 [OF none] show ?thesis
      by (intro exI [of _ c1] exI [of _ c2]) (simp add: \<sigma>_def)
  qed
qed

text \<open>
  C8. For a strictly descending OCV table and a nonzero nominal capacity, the reset
  from the OCV table (\<open>resetSOC\<close> with a percent outside 0 to 100) is monotone in the
  measured highest cell voltage: of two devices with the same table and capacity, the
  one that measures the lower voltage does not end with the higher state of charge.
\<close>

theorem resetSOC_ocv_monotone:
  assumes desc: "sorted_wrt (>) (OCV s1)"
    and same: "OCV s2 = OCV s1" "nominalCapacity s2 = nominalCapacity s1"
    and cap: "nominalCapacity s1 \<noteq> 0"
    and ocv: "\<not> (percent \<le> 100 \<and> percent \<ge> 0)"
    and meas: "getMaxCellVoltage s1 = Inr v1" "getMaxCellVoltage s2 = Inr v2" "v1 \<le> v2"
  shows "\<exists>t1 t2. resetSOC s1 percent = Inr t1 \<and> resetSOC s2 percent = Inr t2
           \<and> getSOC t1 \<le> getSOC t2"
proof -
  define \<sigma> where "\<sigma> = sgn (nominalCapacity s1)"
  from resetSOC_loop_mono [of "s1\<lparr>coulombCounter := 0\<rparr>" "s2\<lparr>coulombCounter := 0\<rparr>" v1 v2 0]
    desc same cap meas(3)
  obtain c1 c2 where r: "resetSOC_loop (s1\<lparr>coulombCounter := 0\<rparr>) v1 0 = Inr (s1\<lparr>coulombCounter := c1\<rparr>)"
    "resetSOC_loop (s2\<lparr>coulombCounter := 0\<rparr>) v2 0 = Inr (s2\<lparr>coulombCounter := c2\<rparr>)"
    and le: "\<sigma> * c1 \<le> \<sigma> * c2"
    by (auto simp: NUM_OCV_POINTS_def \<sigma>_def)
  have soc: "real_of_int c / real_of_int (nominalCapacity s1) * 100
               = real_of_int (\<sigma> * c) / \<bar>real_of_int (nominalCapacity s1)\<bar> * 100" for c
    using cap by (simp add: \<sigma>_def sgn_if abs_if)
  have "real_of_int (\<sigma> * c1) \<le> real_of_int (\<sigma> * c2)"
    using le by (simp only: of_int_le_iff)
  then have "real_of_int (\<sigma> * c1) / \<bar>real_of_int (nominalCapacity s1)\<bar> * 100
               \<le> real_of_int (\<sigma> * c2) / \<bar>real_of_int (nominalCapacity s1)\<bar> * 100"
    by (intro mult_right_mono divide_right_mono) simp_all
  moreover have "getSOC (s1\<lparr>coulombCounter := c1\<rparr>)
      = real_of_int (\<sigma> * c1) / \<bar>real_of_int (nominalCapacity s1)\<bar> * 100"
    unfolding getSOC_def using soc [of c1] by simp
  moreover have "getSOC (s2\<lparr>coulombCounter := c2\<rparr>)
      = real_of_int (\<sigma> * c2) / \<bar>real_of_int (nominalCapacity s1)\<bar> * 100"
    unfolding getSOC_def using soc [of c2] same(2) by simp
  ultimately have "getSOC (s1\<lparr>coulombCounter := c1\<rparr>) \<le> getSOC (s2\<lparr>coulombCounter := c2\<rparr>)"
    by (simp only:)
  moreover have "resetSOC s1 percent = resetSOC_loop (s1\<lparr>coulombCounter := 0\<rparr>) v1 0"
    unfolding resetSOC_def if_not_P [OF ocv] by (simp add: meas)
  moreover have "resetSOC s2 percent = resetSOC_loop (s2\<lparr>coulombCounter := 0\<rparr>) v2 0"
    unfolding resetSOC_def if_not_P [OF ocv] by (simp add: meas)
  ultimately show ?thesis
    using r by simp
qed


theorem resetSOC_ocv_monotone_witness:
  "sorted_wrt (>) (OCV ocv_low) \<and> OCV ocv_high = OCV ocv_low
   \<and> nominalCapacity ocv_high = nominalCapacity ocv_low \<and> nominalCapacity ocv_low \<noteq> 0
   \<and> \<not> ((- 1 :: int) \<le> 100 \<and> (- 1 :: int) \<ge> 0)
   \<and> getMaxCellVoltage ocv_low = Inr 3700 \<and> getMaxCellVoltage ocv_high = Inr 3900
   \<and> (3700 :: int) \<le> 3900
   \<and> (\<exists>t1 t2. resetSOC ocv_low (- 1) = Inr t1 \<and> resetSOC ocv_high (- 1) = Inr t2
           \<and> getSOC t1 \<le> getSOC t2)"
proof -
  have h1: "sorted_wrt (>) (OCV ocv_low)"
    by (simp add: ocv_low_def)
  have h2: "OCV ocv_high = OCV ocv_low" "nominalCapacity ocv_high = nominalCapacity ocv_low"
    by (simp_all add: ocv_low_def ocv_high_def)
  have h3: "nominalCapacity ocv_low \<noteq> 0"
    by (simp add: ocv_low_def)
  have h4: "\<not> ((- 1 :: int) \<le> 100 \<and> (- 1 :: int) \<ge> 0)"
    by simp
  have h5: "getMaxCellVoltage ocv_low = Inr 3700" "getMaxCellVoltage ocv_high = Inr 3900"
    by (simp_all add: getMaxCellVoltage_def array_get_def ocv_low_def ocv_high_def test_bms_def)
  have h6: "(3700 :: int) \<le> 3900"
    by simp
  show ?thesis
    by (intro conjI h1 h2 h3 h4 h5 h6 resetSOC_ocv_monotone [OF h1 h2 h3 h4 h5 h6])
qed

text \<open>The two test devices end at 37.5 and 62.5 percent.\<close>

lemma resetSOC_ocv_example:
  "map_sum id getSOC (resetSOC ocv_low (- 1)) = Inr 37.5
   \<and> map_sum id getSOC (resetSOC ocv_high (- 1)) = Inr 62.5"
  by (simp add: resetSOC_def getMaxCellVoltage_def array_get_def ocv_low_def ocv_high_def
      test_bms_def resetSOC_loop.simps NUM_OCV_POINTS_def getSOC_def to_long_def)

subsection \<open>Temperature getters\<close>

text \<open>
  C10. For every channel, \<open>getTemperatureDegC\<close> returns a tenth of
  \<open>temperatures[channel - 1]\<close> when the channel is 1, 2 or 3 and -273.15 otherwise,
  and leaves the state (bus included) as it was; \<open>getTemperatureDegF\<close> returns that
  value times 1.8 plus 32. The store of temperatures has at least three entries.
\<close>

theorem getTemperature_channels:
  assumes "3 \<le> length (temperatures s)"
  shows "getTemperatureDegC s channel
           = Inr (if 1 \<le> channel \<and> channel \<le> 3
                  then real_of_int (temperatures s ! nat (channel - 1)) / 10 else - 273.15, s)
       \<and> getTemperatureDegF s channel
           = Inr ((if 1 \<le> channel \<and> channel \<le> 3
                   then real_of_int (temperatures s ! nat (channel - 1)) / 10 else - 273.15)
                  * 1.8 + 32, s)"
  using assms
  by (simp add: getTemperatureDegF_def getTemperatureDegC_def array_get_def)

theorem getTemperature_channels_witness:
  "3 \<le> length (temperatures warm)
   \<and> getTemperatureDegC warm 1 = Inr (25.1, warm)
   \<and> getTemperatureDegF warm 1 = Inr (77.18, warm)
   \<and> getTemperatureDegC warm 4 = Inr (- 273.15, warm)
   \<and> getTemperatureDegC warm 0 = Inr (- 273.15, warm)"
proof -
  have h: "3 \<le> length (temperatures warm)"
    by (simp add: warm_def test_bms_def)
  have t: "temperatures warm ! 0 = 251"
    by (simp add: warm_def test_bms_def)
  from getTemperature_channels [OF h, of 1] getTemperature_channels [OF h, of 4]
    getTemperature_channels [OF h, of 0] h t
  show ?thesis by simp
qed

end
